theory Spec2Isabelle
  imports Complex_Main
begin

section \<open>Quest SteamVR FBT tool: device resolution, pose transform, streaming loop\<close>

text \<open>
  A shallow embedding of \<^verbatim>\<open>quest_steamvr_fbt_tool.py\<close>. The tracking runtime
  (\<^verbatim>\<open>openvr\<close>), the message client (\<^verbatim>\<open>pythonosc\<close>) and the termination flag
  written by the shell are the environment of \<^verbatim>\<open>run_tracker_server\<close>: what they
  answer is an input of the model. Python exceptions are values of type \<open>exn\<close>;
  everything the function does to the outside is an \<open>event\<close> of its trace.

  Finite Python floats are idealised as reals: rounding, infinities and NaN are outside
  the model; the exceptions that \<^verbatim>\<open>/\<close> and \<^verbatim>\<open>math.asin\<close> raise are inside it.
\<close>

subsection \<open>Exceptions and basic operations\<close>

datatype exn =
    ZeroDivisionError
  | ValueError
  | IndexError
  | TypeError
  | AssertionError
  | RuntimeError
  | External string

text \<open>Sequencing of computations that may raise.\<close>

definition bind_exn :: "exn + 'a \<Rightarrow> ('a \<Rightarrow> exn + 'b) \<Rightarrow> exn + 'b" where
  "bind_exn r f = (case r of Inl e \<Rightarrow> Inl e | Inr v \<Rightarrow> f v)"

text \<open>\<^verbatim>\<open>xs[i]\<close> for a non-negative index: out of range raises \<^verbatim>\<open>IndexError\<close>.\<close>

definition getitem :: "'a list \<Rightarrow> nat \<Rightarrow> exn + 'a" where
  "getitem xs i = (if i < length xs then Inr (xs ! i) else Inl IndexError)"

text \<open>\<^verbatim>\<open>a / b\<close> on floats: a zero divisor raises \<^verbatim>\<open>ZeroDivisionError\<close>.\<close>

definition truediv :: "real \<Rightarrow> real \<Rightarrow> exn + real" where
  "truediv a b = (if b = 0 then Inl ZeroDivisionError else Inr (a / b))"

text \<open>\<^verbatim>\<open>math.asin\<close>: an argument outside \<open>[-1, 1]\<close> raises \<^verbatim>\<open>ValueError\<close>.\<close>

definition asin :: "real \<Rightarrow> exn + real" where
  "asin x = (if - 1 \<le> x \<and> x \<le> 1 then Inr (arcsin x) else Inl ValueError)"

text \<open>\<^verbatim>\<open>math.atan\<close> is defined on every finite float.\<close>

definition atan :: "real \<Rightarrow> real" where
  "atan x = arctan x"

subsection \<open>The tracking runtime's device slots\<close>

text \<open>
  \<^verbatim>\<open>openvr.IVRSystem().getStringTrackedDeviceProperty(i, Prop_SerialNumber_String)\<close>
  is a function from slot indices to serial strings. The two enumerating loops are
  \<^verbatim>\<open>while True\<close> loops that stop only at a matching or an empty serial, so they are
  partial: \<open>None\<close> is the loop that never returns.
\<close>

type_synonym runtime = "nat \<Rightarrow> string"

partial_function (option) get_all_device_serial_loop ::
    "runtime \<Rightarrow> string list \<Rightarrow> nat \<Rightarrow> string list option" where
  "get_all_device_serial_loop serial_of ret i =
     (if serial_of i = '''' then Some ret
      else get_all_device_serial_loop serial_of (ret @ [serial_of i]) (i + 1))"

declare get_all_device_serial_loop.simps [code]

definition get_all_device_serial :: "runtime \<Rightarrow> string list option" where
  "get_all_device_serial serial_of = get_all_device_serial_loop serial_of [] 0"

text \<open>
  \<^verbatim>\<open>get_device_index\<close>: \<open>Inr (Some i)\<close> is \<^verbatim>\<open>return i\<close>, \<open>Inr None\<close> is
  \<^verbatim>\<open>return None\<close>, \<open>Inl RuntimeError\<close> is the \<^verbatim>\<open>raise\<close>.
\<close>

partial_function (option) get_device_index_loop ::
    "runtime \<Rightarrow> string \<Rightarrow> bool \<Rightarrow> nat \<Rightarrow> (exn + nat option) option" where
  "get_device_index_loop serial_of device_name ignore i =
     (if serial_of i = device_name then Some (Inr (Some i))
      else if serial_of i = '''' then
        (if ignore then Some (Inr None) else Some (Inl RuntimeError))
      else get_device_index_loop serial_of device_name ignore (i + 1))"

declare get_device_index_loop.simps [code]

definition get_device_index :: "runtime \<Rightarrow> string \<Rightarrow> bool \<Rightarrow> (exn + nat option) option" where
  "get_device_index serial_of device_name ignore =
     get_device_index_loop serial_of device_name ignore 0"

text \<open>A runtime with finitely many devices: the slots after the last one are empty.\<close>

definition slots :: "string list \<Rightarrow> runtime" where
  "slots xs i = (if i < length xs then xs ! i else '''')"

subsection \<open>Pose transform\<close>

text \<open>
  A pose matrix is a list of rows, as \<^verbatim>\<open>[list(l) for l in list(pose.mDeviceToAbsoluteTracking)]\<close>
  builds it; \<open>item matrix i j\<close> is \<^verbatim>\<open>matrix[i][j]\<close>.
\<close>

type_synonym matrix = "real list list"

definition item :: "matrix \<Rightarrow> nat \<Rightarrow> nat \<Rightarrow> exn + real" where
  "item matrix i j = bind_exn (getitem matrix i) (\<lambda>row. getitem row j)"

definition get_position :: "matrix \<Rightarrow> exn + real \<times> real \<times> real" where
  "get_position matrix =
     bind_exn (item matrix 0 3) (\<lambda>pos_x.
     bind_exn (item matrix 1 3) (\<lambda>pos_y.
     bind_exn (item matrix 2 3) (\<lambda>pos_z.
     Inr (pos_x, pos_y, pos_z))))"

definition get_euler_angle :: "matrix \<Rightarrow> exn + real \<times> real \<times> real" where
  "get_euler_angle matrix =
     bind_exn (item matrix 0 2) (\<lambda>m02.
     bind_exn (asin m02) (\<lambda>rot_y.
     if rot_y \<noteq> 0 then
       bind_exn (item matrix 1 2) (\<lambda>m12.
       bind_exn (item matrix 2 2) (\<lambda>m22.
       bind_exn (truediv (- m12) m22) (\<lambda>qx.
       bind_exn (item matrix 0 1) (\<lambda>m01.
       bind_exn (item matrix 0 0) (\<lambda>m00.
       bind_exn (truediv (- m01) m00) (\<lambda>qz.
       Inr (atan qx, rot_y, atan qz)))))))
     else
       bind_exn (item matrix 2 1) (\<lambda>m21.
       bind_exn (item matrix 1 1) (\<lambda>m11.
       bind_exn (truediv m21 m11) (\<lambda>qx.
       Inr (atan qx, rot_y, 0))))))"

subsection \<open>Events, messages and the error dialog\<close>

type_synonym message = "string \<times> real list"

datatype event =
    Send_message message
  | Logger_critical exn
  | Message_box exn
  | Set_thread_terminate
  | Logger_info
  | Wx_exit

text \<open>\<^verbatim>\<open>error_handling()\<close>, called in every \<^verbatim>\<open>except Exception\<close> clause.\<close>

definition error_handling :: "exn \<Rightarrow> event list" where
  "error_handling e = [Logger_critical e, Message_box e, Set_thread_terminate, Wx_exit]"

text \<open>\<^verbatim>\<open>str(n)\<close> for the channel number inside the address.\<close>

definition digit :: "nat \<Rightarrow> char" where
  "digit d = ''0123456789'' ! d"

function str :: "nat \<Rightarrow> string" where
  "str n = (if n < 10 then [digit n] else str (n div 10) @ [digit (n mod 10)])"
  by pat_completeness auto
termination
  by (relation "measure id") auto

declare str.simps [simp del]

definition address :: "nat \<Rightarrow> string \<Rightarrow> string" where
  "address i leaf = ''/tracking/trackers/'' @ str (i + 1) @ leaf"

subsection \<open>One tick of the streaming loop\<close>

text \<open>
  What the environment answers during one iteration of \<^verbatim>\<open>while True\<close>: the value of
  \<^verbatim>\<open>thread_terminate\<close> read at the top, the result of the bulk pose read, and for the
  \<open>n\<close>-th \<^verbatim>\<open>send_message\<close> of the iteration (counted from 0) whether it raises.
\<close>

record tick_env =
  thread_terminate :: bool
  getLastPoses :: "exn + matrix list"
  send_raises :: "nat \<Rightarrow> exn option"

text \<open>
  The messages sent so far in the iteration are threaded through the sends; a raise
  keeps them, since they are already on the wire.
\<close>

definition send_message ::
    "(nat \<Rightarrow> exn option) \<Rightarrow> string \<Rightarrow> real list \<Rightarrow> message list \<Rightarrow> message list \<times> exn option" where
  "send_message net addr payload sent =
     (case net (length sent) of
        Some e \<Rightarrow> (sent, Some e)
      | None \<Rightarrow> (sent @ [(addr, payload)], None))"

definition then_send ::
    "message list \<times> exn option \<Rightarrow> (message list \<Rightarrow> message list \<times> exn option) \<Rightarrow>
     message list \<times> exn option" where
  "then_send r f = (case r of (sent, Some e) \<Rightarrow> (sent, Some e) | (sent, None) \<Rightarrow> f sent)"

text \<open>
  The body of \<^verbatim>\<open>for i, j in enumerate(device_indexes)\<close>: first the pose of slot
  \<open>j\<close> and its position and angles (\<open>read_pose\<close>), then the four sends.
\<close>

definition read_pose ::
    "matrix list \<Rightarrow> nat \<Rightarrow> exn + (real \<times> real \<times> real) \<times> (real \<times> real \<times> real)" where
  "read_pose poses j =
     bind_exn (getitem poses j) (\<lambda>m.
     bind_exn (get_position m) (\<lambda>pos.
     bind_exn (get_euler_angle m) (\<lambda>rot. Inr (pos, rot))))"

definition for_body ::
    "(nat \<Rightarrow> exn option) \<Rightarrow> real \<Rightarrow> matrix list \<Rightarrow> nat \<Rightarrow> nat \<Rightarrow> message list \<Rightarrow>
     message list \<times> exn option" where
  "for_body net y_delta poses i j sent =
     (case read_pose poses j of
        Inl e \<Rightarrow> (sent, Some e)
      | Inr ((pos_x, pos_y, pos_z), (rot_x, rot_y, rot_z)) \<Rightarrow>
          then_send (send_message net (address i ''/position'')
                       [- pos_x, pos_y + y_delta, pos_z] sent) (\<lambda>sent.
          then_send (send_message net (address i ''/rotation/x'') [rot_x] sent) (\<lambda>sent.
          then_send (send_message net (address i ''/rotation/y'') [rot_y] sent) (\<lambda>sent.
          send_message net (address i ''/rotation/z'') [rot_z] sent))))"

fun for_device_indexes ::
    "(nat \<Rightarrow> exn option) \<Rightarrow> real \<Rightarrow> matrix list \<Rightarrow> nat \<Rightarrow> nat list \<Rightarrow> message list \<Rightarrow>
     message list \<times> exn option" where
  "for_device_indexes net y_delta poses i [] sent = (sent, None)"
| "for_device_indexes net y_delta poses i (j # js) sent =
     (case for_body net y_delta poses i j sent of
        (sent', Some e) \<Rightarrow> (sent', Some e)
      | (sent', None) \<Rightarrow> for_device_indexes net y_delta poses (i + 1) js sent')"

datatype tick_result = Next_tick | Return_terminated | Return_error exn

definition tick :: "nat list \<Rightarrow> real \<Rightarrow> tick_env \<Rightarrow> event list \<times> tick_result" where
  "tick device_indexes y_delta env =
     (if thread_terminate env then ([Logger_info, Wx_exit], Return_terminated)
      else case getLastPoses env of
          Inl e \<Rightarrow> (error_handling e, Return_error e)
        | Inr poses \<Rightarrow>
            (case for_device_indexes (send_raises env) y_delta poses 0 device_indexes [] of
               (sent, Some e) \<Rightarrow> (map Send_message sent @ error_handling e, Return_error e)
             | (sent, None) \<Rightarrow> (map Send_message sent, Next_tick)))"

subsection \<open>The streaming loop\<close>

text \<open>
  \<^verbatim>\<open>while True\<close> over the environment's answers, one \<open>tick_env\<close> per iteration. The
  loop has no exit but its two \<^verbatim>\<open>return\<close>s; a run that has used up the answers it
  was given is still \<open>Running\<close>.
\<close>

datatype exit = Running | Terminated | Failed exn

fun streaming_loop :: "nat list \<Rightarrow> real \<Rightarrow> tick_env list \<Rightarrow> event list \<times> exit" where
  "streaming_loop device_indexes y_delta [] = ([], Running)"
| "streaming_loop device_indexes y_delta (env # envs) =
     (case tick device_indexes y_delta env of
        (evs, Next_tick) \<Rightarrow>
          (case streaming_loop device_indexes y_delta envs of (evs', r) \<Rightarrow> (evs @ evs', r))
      | (evs, Return_terminated) \<Rightarrow> (evs, Terminated)
      | (evs, Return_error e) \<Rightarrow> (evs, Failed e))"

subsection \<open>Startup, calibration and the whole run\<close>

record startup_env =
  client_raises :: "exn option"
  device_serial :: runtime
  calibration_poses :: "exn + matrix list"

fun resolve_devices :: "runtime \<Rightarrow> bool \<Rightarrow> string list \<Rightarrow> nat list \<Rightarrow> (exn + nat list) option" where
  "resolve_devices rt ignore [] device_indexes = Some (Inr device_indexes)"
| "resolve_devices rt ignore (device # rest) device_indexes =
     (case get_device_index rt device ignore of
        None \<Rightarrow> None
      | Some (Inl e) \<Rightarrow> Some (Inl e)
      | Some (Inr None) \<Rightarrow> resolve_devices rt ignore rest device_indexes
      | Some (Inr (Some i)) \<Rightarrow> resolve_devices rt ignore rest (device_indexes @ [i]))"

text \<open>The first \<^verbatim>\<open>try\<close> block: client, device indexes, \<^verbatim>\<open>assert 0 < len(device_indexes) < 9\<close>.\<close>

definition startup :: "startup_env \<Rightarrow> string list \<Rightarrow> bool \<Rightarrow> (exn + nat list) option" where
  "startup env use_device ignore =
     (case client_raises env of
        Some e \<Rightarrow> Some (Inl e)
      | None \<Rightarrow>
          (case resolve_devices (device_serial env) ignore use_device [] of
             None \<Rightarrow> None
           | Some (Inl e) \<Rightarrow> Some (Inl e)
           | Some (Inr device_indexes) \<Rightarrow>
               if 0 < length device_indexes \<and> length device_indexes < 9
               then Some (Inr device_indexes) else Some (Inl AssertionError)))"

text \<open>
  The second block: \<^verbatim>\<open>y_delta\<close>. \<^verbatim>\<open>poses[None]\<close> would be a \<^verbatim>\<open>TypeError\<close>; the call
  passes \<^verbatim>\<open>False\<close>, so \<^verbatim>\<open>None\<close> does not come back.
\<close>

definition calibration :: "startup_env \<Rightarrow> string option \<Rightarrow> real \<Rightarrow> (exn + real) option" where
  "calibration env standard_device delta =
     (case standard_device of
        None \<Rightarrow> Some (Inr 0)
      | Some name \<Rightarrow>
          (case get_device_index (device_serial env) name False of
             None \<Rightarrow> None
           | Some (Inl e) \<Rightarrow> Some (Inl e)
           | Some (Inr None) \<Rightarrow> Some (Inl TypeError)
           | Some (Inr (Some i)) \<Rightarrow>
               Some (bind_exn (calibration_poses env) (\<lambda>poses.
                     bind_exn (getitem poses i) (\<lambda>pose.
                     bind_exn (item pose 1 3) (\<lambda>y.
                     Inr (- 1 * y + delta)))))))"

definition run_tracker_server ::
    "startup_env \<Rightarrow> tick_env list \<Rightarrow> string list \<Rightarrow> bool \<Rightarrow> string option \<Rightarrow> real \<Rightarrow>
     (event list \<times> exit) option" where
  "run_tracker_server env ticks use_device ignore_not_found_device standard_device delta =
     (case startup env use_device ignore_not_found_device of
        None \<Rightarrow> None
      | Some (Inl e) \<Rightarrow> Some (error_handling e, Failed e)
      | Some (Inr device_indexes) \<Rightarrow>
          (case calibration env standard_device delta of
             None \<Rightarrow> None
           | Some (Inl e) \<Rightarrow> Some (error_handling e, Failed e)
           | Some (Inr y_delta) \<Rightarrow> Some (streaming_loop device_indexes y_delta ticks)))"

subsection \<open>Matrices that have the entries read\<close>

text \<open>
  Both extraction functions read rows 0 to 2 and columns 0 to 3 only. A matrix is
  well-formed when these entries exist: every 4x4 matrix is, and so is the 3x4 matrix
  that the runtime delivers.
\<close>

definition well_formed :: "matrix \<Rightarrow> bool" where
  "well_formed m =
     (3 \<le> length m \<and> 4 \<le> length (m ! 0) \<and> 4 \<le> length (m ! 1) \<and> 4 \<le> length (m ! 2))"

subsection \<open>The wire contract in the words of the specification\<close>

text \<open>
  The four messages of channel \<open>n\<close> for one pose matrix and its angles: the position with
  the raw x negated and the offset added to the raw y, then the three rotations. The
  specification names the endpoints \<^verbatim>\<open>trackers/n/position\<close> and so on; the program puts
  them under \<^verbatim>\<open>/tracking/\<close>.
\<close>

definition channel_messages :: "real \<Rightarrow> nat \<Rightarrow> matrix \<times> real \<times> real \<times> real \<Rightarrow> message list" where
  "channel_messages y_delta n pose =
     (case pose of (m, rot_x, rot_y, rot_z) \<Rightarrow>
        [(''/tracking/trackers/'' @ str n @ ''/position'',
            [- (m ! 0 ! 3), m ! 1 ! 3 + y_delta, m ! 2 ! 3]),
         (''/tracking/trackers/'' @ str n @ ''/rotation/x'', [rot_x]),
         (''/tracking/trackers/'' @ str n @ ''/rotation/y'', [rot_y]),
         (''/tracking/trackers/'' @ str n @ ''/rotation/z'', [rot_z])])"

text \<open>The messages of one tick: channel \<open>n\<close> first, then \<open>n + 1\<close>, and so on.\<close>

fun tick_messages :: "real \<Rightarrow> nat \<Rightarrow> (matrix \<times> real \<times> real \<times> real) list \<Rightarrow> message list" where
  "tick_messages y_delta n [] = []"
| "tick_messages y_delta n (pose # poses) =
     channel_messages y_delta n pose @ tick_messages y_delta (n + 1) poses"

subsection \<open>A transport on which no send fails\<close>

definition no_send_failure :: "nat \<Rightarrow> exn option" where
  "no_send_failure n = None"

section \<open>Device resolution\<close>

lemma get_device_index_loop_found:
  "serial_of (i + d) = device_name \<Longrightarrow>
   (\<forall>j<d. serial_of (i + j) \<noteq> device_name \<and> serial_of (i + j) \<noteq> '''') \<Longrightarrow>
   get_device_index_loop serial_of device_name ignore i = Some (Inr (Some (i + d)))"
proof (induction d arbitrary: i)
  case 0
  then show ?case by (subst get_device_index_loop.simps) simp
next
  case (Suc d)
  have here: "serial_of i \<noteq> device_name \<and> serial_of i \<noteq> ''''"
    using Suc.prems(2) [rule_format, of 0] by simp
  have later: "\<forall>j<d. serial_of (Suc i + j) \<noteq> device_name \<and> serial_of (Suc i + j) \<noteq> ''''"
    using Suc.prems(2) by (auto dest: spec [where x = "Suc j" for j])
  have "get_device_index_loop serial_of device_name ignore (Suc i) = Some (Inr (Some (Suc i + d)))"
    using Suc.IH [of "Suc i"] Suc.prems(1) later by simp
  then show ?case using here by (subst get_device_index_loop.simps) simp
qed

lemma get_device_index_loop_missing:
  "serial_of (i + d) = '''' \<Longrightarrow> device_name \<noteq> '''' \<Longrightarrow>
   (\<forall>j<d. serial_of (i + j) \<noteq> device_name \<and> serial_of (i + j) \<noteq> '''') \<Longrightarrow>
   get_device_index_loop serial_of device_name ignore i =
     Some (if ignore then Inr None else Inl RuntimeError)"
proof (induction d arbitrary: i)
  case 0
  then show ?case by (subst get_device_index_loop.simps) auto
next
  case (Suc d)
  have here: "serial_of i \<noteq> device_name \<and> serial_of i \<noteq> ''''"
    using Suc.prems(3) [rule_format, of 0] by simp
  have later: "\<forall>j<d. serial_of (Suc i + j) \<noteq> device_name \<and> serial_of (Suc i + j) \<noteq> ''''"
    using Suc.prems(3) by (auto dest: spec [where x = "Suc j" for j])
  have "get_device_index_loop serial_of device_name ignore (Suc i) =
      Some (if ignore then Inr None else Inl RuntimeError)"
    using Suc.IH [of "Suc i"] Suc.prems(1,2) later by simp
  then show ?case using here by (subst get_device_index_loop.simps) simp
qed

lemma get_device_index_first:
  assumes "\<forall>j<k. rt j \<noteq> device_name \<and> rt j \<noteq> ''''"
      and "rt k = device_name \<or> rt k = ''''"
  shows "get_device_index rt device_name ignore =
           Some (if rt k = device_name then Inr (Some k)
                 else if ignore then Inr None else Inl RuntimeError)"
proof (cases "rt k = device_name")
  case True
  then show ?thesis
    using get_device_index_loop_found [of rt 0 k device_name ignore] assms(1)
    by (simp add: get_device_index_def)
next
  case False
  with assms(2) have "rt k = ''''" by simp
  moreover from this False have "device_name \<noteq> ''''" by auto
  ultimately show ?thesis
    using get_device_index_loop_missing [of rt 0 k device_name ignore] assms(1) False
    by (simp add: get_device_index_def)
qed

lemma get_device_index_returns:
  assumes "rt n = ''''"
  shows "\<exists>r. get_device_index rt device_name ignore = Some r"
proof -
  have "\<exists>k. rt k = device_name \<or> rt k = ''''" using assms by blast
  then obtain k where k: "rt k = device_name \<or> rt k = ''''"
    and least: "\<forall>j<k. \<not> (rt j = device_name \<or> rt j = '''')"
    using exists_least_iff [of "\<lambda>k. rt k = device_name \<or> rt k = ''''"] by blast
  from least have "\<forall>j<k. rt j \<noteq> device_name \<and> rt j \<noteq> ''''" by blast
  from get_device_index_first [OF this k] show ?thesis by blast
qed

lemma get_device_index_loop_empty_name:
  assumes "get_device_index_loop rt name ignore i = Some r" and "name = ''''"
  shows "\<exists>k. r = Inr (Some k) \<and> rt k = ''''"
  using assms
  by (induction rule: get_device_index_loop.raw_induct [rotated 1, consumes 1])
     (auto split: if_splits)

lemma get_all_device_serial_loop_returns:
  "rt (i + d) = '''' \<Longrightarrow> (\<forall>j<d. rt (i + j) \<noteq> '''') \<Longrightarrow>
   get_all_device_serial_loop rt ret i = Some (ret @ map rt [i..<i + d])"
proof (induction d arbitrary: i ret)
  case 0
  then show ?case by (subst get_all_device_serial_loop.simps) simp
next
  case (Suc d)
  have here: "rt i \<noteq> ''''" using Suc.prems(2) [rule_format, of 0] by simp
  have later: "\<forall>j<d. rt (Suc i + j) \<noteq> ''''"
    using Suc.prems(2) by (auto dest: spec [where x = "Suc j" for j])
  have "get_all_device_serial_loop rt (ret @ [rt i]) (Suc i) =
          Some ((ret @ [rt i]) @ map rt [Suc i..<Suc i + d])"
    using Suc.IH [of "Suc i" "ret @ [rt i]"] Suc.prems(1) later by simp
  moreover have "[i..<i + Suc d] = i # [Suc i..<Suc i + d]"
    using upt_conv_Cons [of i "i + Suc d"] by simp
  ultimately show ?case using here
    by (subst get_all_device_serial_loop.simps) (simp del: upt_Suc)
qed

lemma get_all_device_serial_loop_sentinel:
  assumes "get_all_device_serial_loop rt ret i = Some ys"
  shows "\<exists>d. rt (i + d) = '''' \<and> (\<forall>j<d. rt (i + j) \<noteq> '''') \<and> ys = ret @ map rt [i..<i + d]"
  using assms
proof (induction rule: get_all_device_serial_loop.raw_induct [rotated 1, consumes 1])
  case (1 f rt ret i ys)
  show ?case
  proof (cases "rt i = ''''")
    case True
    with 1(2) have "ys = ret" by simp
    with True show ?thesis by (intro exI [of _ 0]) simp
  next
    case False
    with 1(2) have "f rt (ret @ [rt i]) (i + 1) = Some ys" by simp
    from 1(1) [OF this] obtain d where d: "rt (i + 1 + d) = ''''"
      "\<forall>j<d. rt (i + 1 + j) \<noteq> ''''" "ys = (ret @ [rt i]) @ map rt [i + 1..<i + 1 + d]"
      by blast
    have "\<forall>j<Suc d. rt (i + j) \<noteq> ''''"
    proof (intro allI impI)
      fix j assume "j < Suc d"
      show "rt (i + j) \<noteq> ''''"
      proof (cases j)
        case 0 with False show ?thesis by simp
      next
        case (Suc j')
        with \<open>j < Suc d\<close> d(2) [rule_format, of j'] show ?thesis by simp
      qed
    qed
    moreover have "rt (i + Suc d) = ''''" using d(1) by simp
    moreover have "[i..<i + Suc d] = i # [Suc i..<Suc i + d]"
      using upt_conv_Cons [of i "i + Suc d"] by simp
    then have "ys = ret @ map rt [i..<i + Suc d]"
      using d(3) by (simp del: upt_Suc)
    ultimately show ?thesis by blast
  qed
qed

text \<open>
  C4. Resolution walks the slots from index 0. Let \<open>k\<close> be the first slot whose serial is
  the requested one or is empty. If slot \<open>k\<close> holds the requested serial, the call returns
  \<open>k\<close>; if it is empty (and the requested serial is not), the call returns \<^verbatim>\<open>None\<close>
  when \<open>ignore\<close> is set and raises otherwise.
\<close>

theorem device_resolution:
  assumes "\<forall>j<k. rt j \<noteq> device_name \<and> rt j \<noteq> ''''"
  shows "(rt k = device_name \<longrightarrow>
            get_device_index rt device_name ignore = Some (Inr (Some k))) \<and>
         (rt k = '''' \<and> device_name \<noteq> '''' \<longrightarrow>
            get_device_index rt device_name True = Some (Inr None) \<and>
            get_device_index rt device_name False = Some (Inl RuntimeError))"
proof (intro conjI impI)
  assume "rt k = device_name"
  then show "get_device_index rt device_name ignore = Some (Inr (Some k))"
    using get_device_index_first [OF assms, of ignore] by simp
next
  assume a: "rt k = '''' \<and> device_name \<noteq> ''''"
  then have "rt k = device_name \<or> rt k = ''''" by simp
  from get_device_index_first [OF assms this, of True] a
  show "get_device_index rt device_name True = Some (Inr None)" by auto
next
  assume a: "rt k = '''' \<and> device_name \<noteq> ''''"
  then have "rt k = device_name \<or> rt k = ''''" by simp
  from get_device_index_first [OF assms this, of False] a
  show "get_device_index rt device_name False = Some (Inl RuntimeError)" by auto
qed

theorem device_resolution_witness:
  "get_device_index (slots [''A'', ''B'', '''']) ''B'' False = Some (Inr (Some 1)) \<and>
   get_device_index (slots [''A'', ''B'', '''']) ''C'' True = Some (Inr None) \<and>
   get_device_index (slots [''A'', ''B'', '''']) ''C'' False = Some (Inl RuntimeError)"
proof -
  have b: "\<forall>j<1. slots [''A'', ''B'', ''''] j \<noteq> ''B'' \<and> slots [''A'', ''B'', ''''] j \<noteq> ''''"
    by (simp add: slots_def)
  have c: "\<forall>j<2. slots [''A'', ''B'', ''''] j \<noteq> ''C'' \<and> slots [''A'', ''B'', ''''] j \<noteq> ''''"
    by (simp add: slots_def less_Suc_eq numeral_2_eq_2)
  have "slots [''A'', ''B'', ''''] 1 = ''B''" and "slots [''A'', ''B'', ''''] 2 = ''''"
    by (simp_all add: slots_def)
  then show ?thesis
    using device_resolution [OF b, of False] device_resolution [OF c]
    by simp
qed

text \<open>
  C10. Resolving the empty serial never returns \<^verbatim>\<open>None\<close> and never raises, whatever
  \<open>ignore\<close> is: the equality test comes before the test for the empty serial. When the
  enumeration ends at slot \<open>n\<close>, the call returns \<open>n\<close>, which is the number of serials
  that \<^verbatim>\<open>get_all_device_serial\<close> lists, so no listed device has that index.
\<close>

theorem resolve_empty_serial:
  "get_device_index rt '''' ignore \<noteq> Some (Inr None) \<and>
   (\<forall>e. get_device_index rt '''' ignore \<noteq> Some (Inl e)) \<and>
   (rt n = '''' \<and> (\<forall>j<n. rt j \<noteq> '''') \<longrightarrow>
      get_device_index rt '''' ignore = Some (Inr (Some n)) \<and>
      map_option length (get_all_device_serial rt) = Some n)"
proof (intro conjI allI impI)
  show "get_device_index rt '''' ignore \<noteq> Some (Inr None)"
    using get_device_index_loop_empty_name [of rt "''''" ignore 0 "Inr None"]
    by (auto simp: get_device_index_def)
next
  fix e
  show "get_device_index rt '''' ignore \<noteq> Some (Inl e)"
    using get_device_index_loop_empty_name [of rt "''''" ignore 0 "Inl e"]
    by (auto simp: get_device_index_def)
next
  assume a: "rt n = '''' \<and> (\<forall>j<n. rt j \<noteq> '''')"
  then have "\<forall>j<n. rt j \<noteq> '''' \<and> rt j \<noteq> ''''" by simp
  from get_device_index_first [OF this, of ignore] a
  show "get_device_index rt '''' ignore = Some (Inr (Some n))" by simp
next
  assume a: "rt n = '''' \<and> (\<forall>j<n. rt j \<noteq> '''')"
  then show "map_option length (get_all_device_serial rt) = Some n"
    using get_all_device_serial_loop_returns [of rt 0 n "[]"]
    by (simp add: get_all_device_serial_def)
qed

theorem resolve_empty_serial_witness:
  "get_device_index (slots [''A'', ''B'']) '''' True = Some (Inr (Some 2)) \<and>
   get_device_index (slots [''A'', ''B'']) '''' False = Some (Inr (Some 2)) \<and>
   map_option length (get_all_device_serial (slots [''A'', ''B''])) = Some 2"
proof -
  have h: "slots [''A'', ''B''] 2 = '''' \<and> (\<forall>j<2. slots [''A'', ''B''] j \<noteq> '''')"
    by (simp add: slots_def less_Suc_eq numeral_2_eq_2)
  show ?thesis
    using resolve_empty_serial [of "slots [''A'', ''B'']" True 2]
      resolve_empty_serial [of "slots [''A'', ''B'']" False 2] h
    by blast
qed

section \<open>Pose transform\<close>

lemma item_well_formed:
  assumes "well_formed m" and "i < 3" and "j < 4"
  shows "item m i j = Inr (m ! i ! j)"
proof -
  from assms(2) consider "i = 0" | "i = 1" | "i = 2" by linarith
  then show ?thesis
    using assms(1,3)
    by cases (auto simp: well_formed_def item_def getitem_def bind_exn_def)
qed

lemma get_position_well_formed:
  assumes "well_formed m"
  shows "get_position m = Inr (m ! 0 ! 3, m ! 1 ! 3, m ! 2 ! 3)"
  by (simp add: get_position_def item_well_formed [OF assms] bind_exn_def)

lemma arcsin_zero_iff:
  assumes "- 1 \<le> x" and "x \<le> 1"
  shows "arcsin x = 0 \<longleftrightarrow> x = (0::real)"
proof
  assume "arcsin x = 0"
  then have "sin (arcsin x) = 0" by simp
  then show "x = 0" using assms by simp
next
  assume "x = 0"
  then show "arcsin x = 0" by simp
qed

text \<open>
  C2 (amended). For a well-formed matrix with \<open>m[0][2]\<close> in \<open>[-1, 1]\<close> whose divisors
  in the branch taken are not zero, the angles are \<open>rotY = asin(m[0][2])\<close>; if
  \<open>rotY \<noteq> 0\<close> then \<open>rotX = atan(-m[1][2] / m[2][2])\<close> and
  \<open>rotZ = atan(-m[0][1] / m[0][0])\<close>, else \<open>rotX = atan(m[2][1] / m[1][1])\<close> and
  \<open>rotZ = 0\<close>; \<open>rotY = 0\<close> exactly when \<open>m[0][2] = 0\<close>; the position is
  \<open>(m[0][3], m[1][3], m[2][3])\<close>.
\<close>

theorem euler_extraction:
  assumes "well_formed m" and "- 1 \<le> m ! 0 ! 2" and "m ! 0 ! 2 \<le> 1"
    and "if m ! 0 ! 2 \<noteq> 0 then m ! 2 ! 2 \<noteq> 0 \<and> m ! 0 ! 0 \<noteq> 0 else m ! 1 ! 1 \<noteq> 0"
  shows "get_euler_angle m =
           Inr (if arcsin (m ! 0 ! 2) \<noteq> 0
                then (arctan (- (m ! 1 ! 2) / (m ! 2 ! 2)), arcsin (m ! 0 ! 2),
                      arctan (- (m ! 0 ! 1) / (m ! 0 ! 0)))
                else (arctan ((m ! 2 ! 1) / (m ! 1 ! 1)), arcsin (m ! 0 ! 2), 0)) \<and>
         (arcsin (m ! 0 ! 2) = 0 \<longleftrightarrow> m ! 0 ! 2 = 0) \<and>
         get_position m = Inr (m ! 0 ! 3, m ! 1 ! 3, m ! 2 ! 3)"
proof (intro conjI)
  note zero = arcsin_zero_iff [OF assms(2,3)]
  show "arcsin (m ! 0 ! 2) = 0 \<longleftrightarrow> m ! 0 ! 2 = 0" by (rule zero)
  show "get_position m = Inr (m ! 0 ! 3, m ! 1 ! 3, m ! 2 ! 3)"
    by (rule get_position_well_formed [OF assms(1)])
  show "get_euler_angle m =
           Inr (if arcsin (m ! 0 ! 2) \<noteq> 0
                then (arctan (- (m ! 1 ! 2) / (m ! 2 ! 2)), arcsin (m ! 0 ! 2),
                      arctan (- (m ! 0 ! 1) / (m ! 0 ! 0)))
                else (arctan ((m ! 2 ! 1) / (m ! 1 ! 1)), arcsin (m ! 0 ! 2), 0))"
  proof (cases "m ! 0 ! 2 = 0")
    case True
    with assms(4) have "m ! 1 ! 1 \<noteq> 0" by simp
    with True show ?thesis
      by (simp add: get_euler_angle_def item_well_formed [OF assms(1)] bind_exn_def
          asin_def truediv_def atan_def)
  next
    case False
    with assms(4) have "m ! 2 ! 2 \<noteq> 0" and "m ! 0 ! 0 \<noteq> 0" by simp_all
    with False zero assms(2,3) show ?thesis
      by (simp add: get_euler_angle_def item_well_formed [OF assms(1)] bind_exn_def
          asin_def truediv_def atan_def)
  qed
qed

theorem euler_extraction_witness:
  "get_euler_angle [[1, 0, 0, 5], [0, 1, 0, 6], [0, 0, 1, 7], [0, 0, 0, 1]] = Inr (0, 0, 0) \<and>
   get_position [[1, 0, 0, 5], [0, 1, 0, 6], [0, 0, 1, 7], [0, 0, 0, 1]] = Inr (5, 6, 7) \<and>
   get_euler_angle [[sqrt 3 / 2, 0, 1 / 2, 0], [0, 1, 0, 0], [- (1 / 2), 0, sqrt 3 / 2, 0]] =
     Inr (0, pi / 6, 0)"
proof -
  have a: "well_formed [[1, 0, 0, 5], [0, 1, 0, 6], [0, 0, 1, 7], [0, 0, 0, 1]]"
    and b: "well_formed [[sqrt 3 / 2, 0, 1 / 2, 0], [0, 1, 0, 0], [- (1 / 2), 0, sqrt 3 / 2, 0]]"
    by (simp_all add: well_formed_def)
  show ?thesis
    using euler_extraction [OF a] euler_extraction [OF b]
    by simp
qed

theorem euler_extraction_counterexample:
  "well_formed [[1, 0, 0, 0], [0, 0, - 1, 0], [0, 1, 0, 0], [0, 0, 0, 1]] \<and>
   - 1 \<le> [[1, 0, 0, 0], [0, 0, - 1, 0], [0, 1, 0, 0], [0, 0, 0, 1 :: real]] ! 0 ! 2 \<and>
   [[1, 0, 0, 0], [0, 0, - 1, 0], [0, 1, 0, 0], [0, 0, 0, 1 :: real]] ! 0 ! 2 \<le> 1 \<and>
   get_euler_angle [[1, 0, 0, 0], [0, 0, - 1, 0], [0, 1, 0, 0], [0, 0, 0, 1]] =
     Inl ZeroDivisionError"
  by (simp add: well_formed_def get_euler_angle_def item_def getitem_def bind_exn_def
      asin_def truediv_def)

text \<open>
  C8 (amended). For a well-formed matrix with \<open>m[0][2]\<close> in \<open>[-1, 1]\<close> in which a
  divisor of the branch taken is zero (\<open>m[2][2]\<close> or \<open>m[0][0]\<close> when
  \<open>m[0][2] \<noteq> 0\<close>, \<open>m[1][1]\<close> when \<open>m[0][2] = 0\<close>), the extraction raises
  \<^verbatim>\<open>ZeroDivisionError\<close> and returns no angles.
\<close>

theorem euler_zero_divisor:
  assumes "well_formed m" and "- 1 \<le> m ! 0 ! 2" and "m ! 0 ! 2 \<le> 1"
    and "if m ! 0 ! 2 \<noteq> 0 then m ! 2 ! 2 = 0 \<or> m ! 0 ! 0 = 0 else m ! 1 ! 1 = 0"
  shows "get_euler_angle m = Inl ZeroDivisionError"
proof (cases "m ! 0 ! 2 = 0")
  case True
  with assms(4) have "m ! 1 ! 1 = 0" by simp
  with True show ?thesis
    by (simp add: get_euler_angle_def item_well_formed [OF assms(1)] bind_exn_def
        asin_def truediv_def)
next
  case False
  with assms(4) have "m ! 2 ! 2 = 0 \<or> m ! 0 ! 0 = 0" by simp
  with False arcsin_zero_iff [OF assms(2,3)] assms(2,3) show ?thesis
    by (auto simp: get_euler_angle_def item_well_formed [OF assms(1)] bind_exn_def
        asin_def truediv_def)
qed

theorem euler_zero_divisor_witness:
  "get_euler_angle [[0, 0, 0, 0], [0, 0, 0, 0], [0, 0, 0, 0]] = Inl ZeroDivisionError"
proof -
  have "well_formed [[0, 0, 0, 0], [0, 0, 0, 0], [0, 0, 0, 0]]"
    by (simp add: well_formed_def)
  from euler_zero_divisor [OF this] show ?thesis by simp
qed

theorem euler_zero_divisor_counterexample:
  "[[0, 0, 1, 0], [0, 1, 0, 0], [- 1, 0, 0, 0], [0, 0, 0, 1 :: real]] ! 2 ! 2 = 0 \<and>
   get_euler_angle [[0, 0, 1, 0], [0, 1, 0, 0], [- 1, 0, 0, 0], [0, 0, 0, 1]] =
     Inl ZeroDivisionError"
  by (simp add: get_euler_angle_def item_def getitem_def bind_exn_def asin_def truediv_def)

section \<open>The streaming loop\<close>

lemma send_message_ok:
  "net (length sent) = None \<Longrightarrow>
   send_message net addr payload sent = (sent @ [(addr, payload)], None)"
  by (simp add: send_message_def)

lemma for_body_ok:
  assumes "read_pose poses j = Inr ((x, y, z), (rot_x, rot_y, rot_z))"
    and "\<forall>n<4. net (length sent + n) = None"
  shows "for_body net y_delta poses i j sent =
           (sent @ [(address i ''/position'', [- x, y + y_delta, z]),
                    (address i ''/rotation/x'', [rot_x]),
                    (address i ''/rotation/y'', [rot_y]),
                    (address i ''/rotation/z'', [rot_z])], None)"
proof -
  have 0: "net (length sent) = None" using assms(2) [rule_format, of 0] by simp
  have 1: "net (Suc (length sent)) = None" using assms(2) [rule_format, of 1] by simp
  have 2: "net (Suc (Suc (length sent))) = None" using assms(2) [rule_format, of 2] by simp
  have 3: "net (Suc (Suc (Suc (length sent)))) = None"
    using assms(2) [rule_format, of 3] by (simp add: numeral_3_eq_3)
  show ?thesis
    by (simp add: for_body_def assms(1) then_send_def send_message_def 0 1 2 3)
qed

lemma for_body_None:
  assumes "for_body net y_delta poses i j sent = (sent', None)"
  shows "(\<exists>v. read_pose poses j = Inr v) \<and> (\<forall>n<4. net (length sent + n) = None)"
proof (cases "read_pose poses j")
  case (Inl e)
  with assms show ?thesis by (simp add: for_body_def)
next
  case (Inr v)
  obtain x y z rot_x rot_y rot_z where v: "v = ((x, y, z), (rot_x, rot_y, rot_z))"
    by (metis prod_cases3)
  have sends: "net (length sent) = None \<and> net (Suc (length sent)) = None \<and>
      net (Suc (Suc (length sent))) = None \<and> net (Suc (Suc (Suc (length sent)))) = None"
    using assms Inr v
    by (auto simp: for_body_def then_send_def send_message_def split: option.splits)
  have "\<forall>n<4. net (length sent + n) = None"
  proof (intro allI impI)
    fix n :: nat assume "n < 4"
    then consider "n = 0" | "n = 1" | "n = 2" | "n = 3" by linarith
    then show "net (length sent + n) = None" using sends by cases (simp_all add: numeral_3_eq_3)
  qed
  with Inr show ?thesis by blast
qed

lemma for_body_extends:
  "\<exists>extra. fst (for_body net y_delta poses i j sent) = sent @ extra"
proof (cases "read_pose poses j")
  case (Inl e)
  then show ?thesis by (simp add: for_body_def)
next
  case (Inr v)
  obtain x y z rot_x rot_y rot_z where v: "v = ((x, y, z), (rot_x, rot_y, rot_z))"
    by (metis prod_cases3)
  show ?thesis using Inr v
    by (simp add: for_body_def then_send_def send_message_def split: option.splits)
qed


lemma for_device_indexes_extends:
  "\<exists>extra. fst (for_device_indexes net y_delta poses i js sent) = sent @ extra"
proof (induction js arbitrary: i sent)
  case Nil
  then show ?case by simp
next
  case (Cons j js)
  obtain sent' r where body: "for_body net y_delta poses i j sent = (sent', r)"
    by (cases "for_body net y_delta poses i j sent")
  from for_body_extends [of net y_delta poses i j sent] body
  obtain extra where extra: "sent' = sent @ extra" by auto
  show ?case
  proof (cases r)
    case None
    from Cons.IH [of "i + 1" sent'] obtain more
      where "fst (for_device_indexes net y_delta poses (i + 1) js sent') = sent' @ more"
      by blast
    with body None extra show ?thesis by simp
  next
    case (Some e)
    with body extra show ?thesis by simp
  qed
qed

lemma for_device_indexes_None:
  assumes "for_device_indexes net y_delta poses i js sent = (sent', None)"
  shows "(\<forall>j\<in>set js. \<exists>v. read_pose poses j = Inr v) \<and>
         (\<forall>n<4 * length js. net (length sent + n) = None)"
  using assms
proof (induction js arbitrary: i sent)
  case Nil
  then show ?case by simp
next
  case (Cons j js)
  obtain sent1 r where body: "for_body net y_delta poses i j sent = (sent1, r)"
    by (cases "for_body net y_delta poses i j sent")
  with Cons.prems have r: "r = None"
    by (cases r) simp_all
  with body Cons.prems
  have rest: "for_device_indexes net y_delta poses (i + 1) js sent1 = (sent', None)"
    by simp
  from for_body_None [OF body [unfolded r]]
  have v: "\<exists>v. read_pose poses j = Inr v" and s4: "\<forall>n<4. net (length sent + n) = None"
    by simp_all
  from v obtain w where w: "read_pose poses j = Inr w" by blast
  obtain x y z rot_x rot_y rot_z where "w = ((x, y, z), (rot_x, rot_y, rot_z))"
    by (metis prod_cases3)
  with w have "read_pose poses j = Inr ((x, y, z), (rot_x, rot_y, rot_z))" by simp
  from for_body_ok [OF this s4, of y_delta i] body
  have len: "length sent1 = length sent + 4" by auto
  from Cons.IH [OF rest]
  have ih1: "\<forall>j\<in>set js. \<exists>v. read_pose poses j = Inr v"
    and ih2: "\<forall>n<4 * length js. net (length sent1 + n) = None"
    by simp_all
  have "\<forall>n<4 * length (j # js). net (length sent + n) = None"
  proof (intro allI impI)
    fix n assume n: "n < 4 * length (j # js)"
    show "net (length sent + n) = None"
    proof (cases "n < 4")
      case True
      with s4 show ?thesis by simp
    next
      case False
      then have "n - 4 < 4 * length js" using n by simp
      with ih2 have "net (length sent1 + (n - 4)) = None" by simp
      with len False show ?thesis by simp
    qed
  qed
  with v ih1 show ?case by simp
qed

lemma for_device_indexes_ok:
  assumes "\<forall>j\<in>set js. j < length poses \<and> well_formed (poses ! j) \<and>
             get_euler_angle (poses ! j) = Inr (rot_of j)"
    and "\<forall>n<4 * length js. net (length sent + n) = None"
  shows "for_device_indexes net y_delta poses i js sent =
           (sent @ tick_messages y_delta (i + 1) (map (\<lambda>j. (poses ! j, rot_of j)) js), None)"
  using assms
proof (induction js arbitrary: i sent)
  case Nil
  then show ?case by simp
next
  case (Cons j js)
  obtain rot_x rot_y rot_z where rot: "rot_of j = (rot_x, rot_y, rot_z)"
    by (cases "rot_of j")
  have j: "j < length poses" "well_formed (poses ! j)"
    "get_euler_angle (poses ! j) = Inr (rot_of j)"
    using Cons.prems(1) by simp_all
  have pose: "read_pose poses j =
      Inr ((poses ! j ! 0 ! 3, poses ! j ! 1 ! 3, poses ! j ! 2 ! 3), (rot_x, rot_y, rot_z))"
    using j rot
    by (simp add: read_pose_def getitem_def bind_exn_def get_position_well_formed)
  have s4: "\<forall>n<4. net (length sent + n) = None"
    using Cons.prems(2) by simp
  note body = for_body_ok [OF pose s4, of y_delta i]
  let ?sent1 = "sent @ channel_messages y_delta (i + 1) (poses ! j, rot_of j)"
  have rest: "\<forall>n<4 * length js. net (length ?sent1 + n) = None"
  proof (intro allI impI)
    fix n assume "n < 4 * length js"
    then have "n + 4 < 4 * length (j # js)" by simp
    with Cons.prems(2) have "net (length sent + (n + 4)) = None" by blast
    moreover have "length ?sent1 + n = length sent + (n + 4)"
      by (simp add: channel_messages_def rot)
    ultimately show "net (length ?sent1 + n) = None" by (simp only:)
  qed
  have "\<forall>j\<in>set js. j < length poses \<and> well_formed (poses ! j) \<and>
          get_euler_angle (poses ! j) = Inr (rot_of j)"
    using Cons.prems(1) by simp
  from Cons.IH [OF this rest, of "i + 1"] body
  show ?case
    by (simp add: channel_messages_def rot address_def)
qed

lemma length_tick_messages: "length (tick_messages y_delta n poses) = 4 * length poses"
  by (induction poses arbitrary: n) (auto simp: channel_messages_def)

lemma streaming_loop_append:
  assumes "streaming_loop device_indexes y_delta before = (evs, Running)"
  shows "streaming_loop device_indexes y_delta (before @ rest) =
           (evs @ fst (streaming_loop device_indexes y_delta rest),
            snd (streaming_loop device_indexes y_delta rest))"
  using assms
proof (induction before arbitrary: evs)
  case Nil
  then show ?case by simp
next
  case (Cons env before)
  obtain evs1 r where t: "tick device_indexes y_delta env = (evs1, r)"
    by (cases "tick device_indexes y_delta env")
  show ?case
  proof (cases r)
    case Next_tick
    obtain evs2 r2 where l: "streaming_loop device_indexes y_delta before = (evs2, r2)"
      by (cases "streaming_loop device_indexes y_delta before")
    with Cons.prems t Next_tick have "r2 = Running" and "evs = evs1 @ evs2" by simp_all
    with Cons.IH [of evs2] l t Next_tick show ?thesis
      by (simp add: case_prod_beta)
  next
    case Return_terminated
    with Cons.prems t show ?thesis by simp
  next
    case (Return_error e)
    with Cons.prems t show ?thesis by simp
  qed
qed

lemma streaming_loop_Terminated:
  assumes "streaming_loop device_indexes y_delta envs = (evs, Terminated)"
  shows "\<exists>before env after evs0. envs = before @ env # after \<and> thread_terminate env \<and>
           streaming_loop device_indexes y_delta before = (evs0, Running) \<and>
           evs = evs0 @ [Logger_info, Wx_exit]"
  using assms
proof (induction envs arbitrary: evs)
  case Nil
  then show ?case by simp
next
  case (Cons env envs)
  obtain evs1 r where t: "tick device_indexes y_delta env = (evs1, r)"
    by (cases "tick device_indexes y_delta env")
  show ?case
  proof (cases r)
    case Next_tick
    obtain evs2 r2 where l: "streaming_loop device_indexes y_delta envs = (evs2, r2)"
      by (cases "streaming_loop device_indexes y_delta envs")
    with Cons.prems t Next_tick have r2: "r2 = Terminated" and evs: "evs = evs1 @ evs2"
      by simp_all
    from Cons.IH [OF l [unfolded r2]] obtain before env' after evs0
      where ih: "envs = before @ env' # after" "thread_terminate env'"
        "streaming_loop device_indexes y_delta before = (evs0, Running)"
        "evs2 = evs0 @ [Logger_info, Wx_exit]"
      by blast
    have "streaming_loop device_indexes y_delta (env # before) = (evs1 @ evs0, Running)"
      using t Next_tick ih(3) by simp
    moreover have "env # envs = (env # before) @ env' # after" using ih(1) by simp
    moreover have "evs = (evs1 @ evs0) @ [Logger_info, Wx_exit]" using evs ih(4) by simp
    ultimately show ?thesis using ih(2) by blast
  next
    case Return_terminated
    with t have flag: "thread_terminate env" and "evs1 = [Logger_info, Wx_exit]"
      by (auto simp: tick_def split: if_splits sum.splits prod.splits option.splits)
    with Cons.prems t Return_terminated have "evs = [] @ [Logger_info, Wx_exit]" by simp
    moreover have "env # envs = [] @ env # envs" by simp
    moreover have "streaming_loop device_indexes y_delta [] = ([], Running)" by simp
    ultimately show ?thesis using flag by blast
  next
    case (Return_error e)
    with Cons.prems t show ?thesis by simp
  qed
qed

text \<open>
  C1. In a tick that is not stopped by the flag and in which the pose read, every
  pose transform and every send succeed, exactly \<open>4 * k\<close> messages are sent for \<open>k\<close>
  resolved devices: for each channel \<open>n\<close> (position in the list plus one), in the order
  of the list, the position \<open>[- raw x, raw y + offset, raw z]\<close>, then rotation x, y
  and z, under \<^verbatim>\<open>/tracking/trackers/n/\<close>.
\<close>

theorem tick_sends_four_messages_per_channel:
  assumes "\<not> thread_terminate env"
    and "getLastPoses env = Inr poses"
    and "\<forall>j\<in>set device_indexes. j < length poses \<and> well_formed (poses ! j) \<and>
           get_euler_angle (poses ! j) = Inr (rot_of j)"
    and "\<forall>n<4 * length device_indexes. send_raises env n = None"
  shows "tick device_indexes y_delta env =
           (map Send_message
              (tick_messages y_delta 1 (map (\<lambda>j. (poses ! j, rot_of j)) device_indexes)),
            Next_tick) \<and>
         length (tick_messages y_delta 1 (map (\<lambda>j. (poses ! j, rot_of j)) device_indexes)) =
           4 * length device_indexes"
proof -
  have "\<forall>n<4 * length device_indexes. send_raises env (length ([] :: message list) + n) = None"
    using assms(4) by simp
  from for_device_indexes_ok [OF assms(3) this, of y_delta 0]
  show ?thesis using assms(1,2)
    by (simp add: tick_def length_tick_messages)
qed

theorem tick_sends_four_messages_per_channel_witness:
  "tick [0, 1] 0
     \<lparr>thread_terminate = False,
      getLastPoses = Inr [[[1, 0, 0, 5], [0, 1, 0, 6], [0, 0, 1, 7]],
                          [[1, 0, 0, 1], [0, 1, 0, 2], [0, 0, 1, 3]]],
      send_raises = no_send_failure\<rparr> =
   (map Send_message
      [(''/tracking/trackers/1/position'', [- 5, 6, 7]),
       (''/tracking/trackers/1/rotation/x'', [0]),
       (''/tracking/trackers/1/rotation/y'', [0]),
       (''/tracking/trackers/1/rotation/z'', [0]),
       (''/tracking/trackers/2/position'', [- 1, 2, 3]),
       (''/tracking/trackers/2/rotation/x'', [0]),
       (''/tracking/trackers/2/rotation/y'', [0]),
       (''/tracking/trackers/2/rotation/z'', [0])], Next_tick)"
proof -
  let ?poses = "[[[1, 0, 0, 5], [0, 1, 0, 6], [0, 0, 1, 7]],
                 [[1, 0, 0, 1], [0, 1, 0, 2], [0, 0, 1, 3 :: real]]]"
  let ?env = "\<lparr>thread_terminate = False, getLastPoses = Inr ?poses,
               send_raises = no_send_failure\<rparr>"
  have flag: "\<not> thread_terminate ?env" and read: "getLastPoses ?env = Inr ?poses"
    by simp_all
  have poses: "\<forall>j\<in>set [0, 1]. j < length ?poses \<and> well_formed (?poses ! j) \<and>
      get_euler_angle (?poses ! j) = Inr ((\<lambda>j. (0, 0, 0)) j)"
    by (simp add: well_formed_def get_euler_angle_def item_def getitem_def bind_exn_def
        asin_def truediv_def atan_def)
  have sends: "\<forall>n<4 * length [0 :: nat, 1]. send_raises ?env n = None"
    by (simp add: no_send_failure_def)
  from tick_sends_four_messages_per_channel [OF flag read poses sends, of 0]
  show ?thesis
    by (simp add: channel_messages_def str.simps digit_def)
qed

text \<open>
  C6. A tick that finds the termination flag set sends nothing and raises nothing: it
  logs, calls \<^verbatim>\<open>wx.Exit()\<close> and returns, whatever ticks came before; and a run of the
  loop that ended without an error ended at a tick that found the flag set.
\<close>

theorem termination_flag_exits_cleanly:
  "(thread_terminate env \<and> streaming_loop device_indexes y_delta before = (evs0, Running) \<longrightarrow>
      tick device_indexes y_delta env = ([Logger_info, Wx_exit], Return_terminated) \<and>
      streaming_loop device_indexes y_delta (before @ env # after) =
        (evs0 @ [Logger_info, Wx_exit], Terminated)) \<and>
   (streaming_loop device_indexes y_delta envs = (evs, Terminated) \<longrightarrow>
      (\<exists>before env after evs0. envs = before @ env # after \<and> thread_terminate env \<and>
         streaming_loop device_indexes y_delta before = (evs0, Running) \<and>
         evs = evs0 @ [Logger_info, Wx_exit]))"
proof (intro conjI impI)
  assume a: "thread_terminate env \<and>
    streaming_loop device_indexes y_delta before = (evs0, Running)"
  then show t: "tick device_indexes y_delta env = ([Logger_info, Wx_exit], Return_terminated)"
    by (simp add: tick_def)
  from a have "streaming_loop device_indexes y_delta before = (evs0, Running)" by simp
  from streaming_loop_append [OF this, of "env # after"] t
  show "streaming_loop device_indexes y_delta (before @ env # after) =
      (evs0 @ [Logger_info, Wx_exit], Terminated)"
    by simp
next
  assume "streaming_loop device_indexes y_delta envs = (evs, Terminated)"
  then show "\<exists>before env after evs0. envs = before @ env # after \<and> thread_terminate env \<and>
      streaming_loop device_indexes y_delta before = (evs0, Running) \<and>
      evs = evs0 @ [Logger_info, Wx_exit]"
    by (rule streaming_loop_Terminated)
qed

theorem termination_flag_exits_cleanly_witness:
  "streaming_loop [0] 0
     [\<lparr>thread_terminate = True,
       getLastPoses = Inr [[[1, 0, 0, 5], [0, 1, 0, 6], [0, 0, 1, 7]]],
       send_raises = no_send_failure\<rparr>] =
   ([Logger_info, Wx_exit], Terminated)"
proof -
  let ?env = "\<lparr>thread_terminate = True,
       getLastPoses = Inr [[[1, 0, 0, 5], [0, 1, 0, 6], [0, 0, 1, 7 :: real]]],
       send_raises = no_send_failure\<rparr>"
  have "thread_terminate ?env \<and> streaming_loop [0] 0 [] = ([], Running)" by simp
  with termination_flag_exits_cleanly [of ?env "[0]" 0 "[]" "[]" "[]"]
  show ?thesis by simp
qed

lemma for_device_indexes_append:
  "for_device_indexes net y_delta poses i (xs @ ys) sent =
     (case for_device_indexes net y_delta poses i xs sent of
        (sent', Some e) \<Rightarrow> (sent', Some e)
      | (sent', None) \<Rightarrow> for_device_indexes net y_delta poses (i + length xs) ys sent')"
proof (induction xs arbitrary: i sent)
  case Nil
  then show ?case by simp
next
  case (Cons j xs)
  obtain sent1 r where body: "for_body net y_delta poses i j sent = (sent1, r)"
    by (cases "for_body net y_delta poses i j sent")
  show ?case
  proof (cases r)
    case None
    with body Cons.IH [of "i + 1" sent1] show ?thesis
      by (simp split: prod.splits option.splits)
  next
    case (Some e)
    with body show ?thesis by simp
  qed
qed

lemma read_pose_raises:
  assumes "length poses \<le> j \<and> e = IndexError \<or>
           j < length poses \<and>
             (get_position (poses ! j) = Inl e \<or>
              (\<exists>pos. get_position (poses ! j) = Inr pos) \<and>
              get_euler_angle (poses ! j) = Inl e)"
  shows "read_pose poses j = Inl e"
  using assms by (auto simp: read_pose_def getitem_def bind_exn_def)

lemma for_body_transform_raises:
  "read_pose poses j = Inl e \<Longrightarrow> for_body net y_delta poses i j sent = (sent, Some e)"
  by (simp add: for_body_def)

lemma for_body_send_raises:
  assumes "read_pose poses j = Inr ((x, y, z), (rot_x, rot_y, rot_z))"
    and "r < 4"
    and "\<forall>n<r. net (length sent + n) = None"
    and "net (length sent + r) = Some e"
  shows "for_body net y_delta poses i j sent =
           (sent @ take r [(address i ''/position'', [- x, y + y_delta, z]),
                           (address i ''/rotation/x'', [rot_x]),
                           (address i ''/rotation/y'', [rot_y]),
                           (address i ''/rotation/z'', [rot_z])], Some e)"
proof -
  from assms(2) consider "r = 0" | "r = 1" | "r = 2" | "r = 3" by linarith
  then show ?thesis
  proof cases
    case 1
    with assms(4) show ?thesis
      by (simp add: for_body_def assms(1) then_send_def send_message_def)
  next
    case 2
    with assms(3) have 0: "net (length sent) = None" by simp
    from 2 assms(4) have "net (Suc (length sent)) = Some e" by simp
    with 0 2 show ?thesis
      by (simp add: for_body_def assms(1) then_send_def send_message_def)
  next
    case 3
    have 0: "net (length sent) = None" using assms(3) [rule_format, of 0] 3 by simp
    have 1: "net (Suc (length sent)) = None" using assms(3) [rule_format, of 1] 3 by simp
    from 3 assms(4) have "net (Suc (Suc (length sent))) = Some e" by simp
    with 0 1 3 show ?thesis
      by (simp add: for_body_def assms(1) then_send_def send_message_def)
  next
    case 4
    have 0: "net (length sent) = None" using assms(3) [rule_format, of 0] 4 by simp
    have 1: "net (Suc (length sent)) = None" using assms(3) [rule_format, of 1] 4 by simp
    have 2: "net (Suc (Suc (length sent))) = None"
      using assms(3) [rule_format, of 2] 4 by simp
    from 4 assms(4) have "net (Suc (Suc (Suc (length sent)))) = Some e"
      by (simp add: numeral_3_eq_3)
    with 0 1 2 4 show ?thesis
      by (simp add: for_body_def assms(1) then_send_def send_message_def numeral_3_eq_3)
  qed
qed

lemma for_device_indexes_transform_raises:
  assumes "c < length js"
    and "\<forall>j\<in>set (take c js). j < length poses \<and> well_formed (poses ! j) \<and>
           get_euler_angle (poses ! j) = Inr (rot_of j)"
    and "\<forall>n<4 * c. net n = None"
    and "read_pose poses (js ! c) = Inl e"
  shows "for_device_indexes net y_delta poses 0 js [] =
           (tick_messages y_delta 1 (map (\<lambda>j. (poses ! j, rot_of j)) (take c js)), Some e)"
proof -
  let ?done = "tick_messages y_delta 1 (map (\<lambda>j. (poses ! j, rot_of j)) (take c js))"
  have len: "length (take c js) = c" using assms(1) by simp
  have "\<forall>n<4 * length (take c js). net (length ([] :: message list) + n) = None"
    using assms(3) len by simp
  from for_device_indexes_ok [OF assms(2) this, of y_delta 0]
  have pre: "for_device_indexes net y_delta poses 0 (take c js) [] = (?done, None)"
    by simp
  have split: "js = take c js @ js ! c # drop (Suc c) js"
    using assms(1) by (rule id_take_nth_drop)
  have "for_device_indexes net y_delta poses 0 (take c js @ js ! c # drop (Suc c) js) [] =
      (?done, Some e)"
    by (simp add: for_device_indexes_append pre for_body_transform_raises [OF assms(4)])
  with split show ?thesis by simp
qed

lemma for_device_indexes_send_raises:
  assumes "c < length js"
    and "r < 4"
    and "\<forall>j\<in>set (take (Suc c) js). j < length poses \<and> well_formed (poses ! j) \<and>
           get_euler_angle (poses ! j) = Inr (rot_of j)"
    and "\<forall>n<4 * c + r. net n = None"
    and "net (4 * c + r) = Some e"
  shows "for_device_indexes net y_delta poses 0 js [] =
           (tick_messages y_delta 1 (map (\<lambda>j. (poses ! j, rot_of j)) (take c js)) @
            take r (channel_messages y_delta (c + 1) (poses ! (js ! c), rot_of (js ! c))),
            Some e)"
proof -
  let ?done = "tick_messages y_delta 1 (map (\<lambda>j. (poses ! j, rot_of j)) (take c js))"
  have len: "length (take c js) = c" using assms(1) by simp
  have lend: "length ?done = 4 * c" using assms(1) by (simp add: length_tick_messages)
  have prefix: "\<forall>j\<in>set (take c js). j < length poses \<and> well_formed (poses ! j) \<and>
      get_euler_angle (poses ! j) = Inr (rot_of j)"
    using assms(3) by (auto simp: take_Suc_conv_app_nth [OF assms(1)])
  have "\<forall>n<4 * length (take c js). net (length ([] :: message list) + n) = None"
    using assms(4) len by simp
  from for_device_indexes_ok [OF prefix this, of y_delta 0]
  have pre: "for_device_indexes net y_delta poses 0 (take c js) [] = (?done, None)"
    by simp
  obtain rot_x rot_y rot_z where rot: "rot_of (js ! c) = (rot_x, rot_y, rot_z)"
    by (cases "rot_of (js ! c)")
  have j: "js ! c < length poses" "well_formed (poses ! (js ! c))"
    "get_euler_angle (poses ! (js ! c)) = Inr (rot_of (js ! c))"
    using assms(3) by (simp_all add: take_Suc_conv_app_nth [OF assms(1)])
  have pose: "read_pose poses (js ! c) =
      Inr ((poses ! (js ! c) ! 0 ! 3, poses ! (js ! c) ! 1 ! 3, poses ! (js ! c) ! 2 ! 3),
           (rot_x, rot_y, rot_z))"
    using j rot
    by (simp add: read_pose_def getitem_def bind_exn_def get_position_well_formed)
  have before: "\<forall>n<r. net (length ?done + n) = None"
    using assms(4) lend by simp
  have at: "net (length ?done + r) = Some e"
    using assms(5) lend by simp
  have ch: "[(address c ''/position'',
                [- (poses ! (js ! c) ! 0 ! 3), poses ! (js ! c) ! 1 ! 3 + y_delta,
                 poses ! (js ! c) ! 2 ! 3]),
             (address c ''/rotation/x'', [rot_x]),
             (address c ''/rotation/y'', [rot_y]),
             (address c ''/rotation/z'', [rot_z])] =
      channel_messages y_delta (c + 1) (poses ! (js ! c), rot_of (js ! c))"
    by (simp add: channel_messages_def rot address_def)
  note body = for_body_send_raises [OF pose assms(2) before at, of y_delta c, unfolded ch]
  have split: "js = take c js @ js ! c # drop (Suc c) js"
    using assms(1) by (rule id_take_nth_drop)
  have "for_device_indexes net y_delta poses 0 (take c js @ js ! c # drop (Suc c) js) [] =
      for_device_indexes net y_delta poses (0 + length (take c js))
        (js ! c # drop (Suc c) js) ?done"
    by (subst for_device_indexes_append) (simp add: pre)
  also have "\<dots> = for_device_indexes net y_delta poses c (js ! c # drop (Suc c) js) ?done"
    using assms(1) by simp
  also have "\<dots> =
      (?done @ take r (channel_messages y_delta (c + 1) (poses ! (js ! c), rot_of (js ! c))),
       Some e)"
    using body by simp
  finally have "for_device_indexes net y_delta poses 0
      (take c js @ js ! c # drop (Suc c) js) [] =
      (?done @ take r (channel_messages y_delta (c + 1) (poses ! (js ! c), rot_of (js ! c))),
       Some e)" .
  with split show ?thesis by simp
qed

lemma for_device_indexes_raises:
  assumes "(\<exists>j\<in>set js. \<exists>x. read_pose poses j = Inl x) \<or>
           (\<exists>n<4 * length js. net n \<noteq> None)"
  shows "\<exists>sent x. for_device_indexes net y_delta poses 0 js [] = (sent, Some x)"
proof -
  obtain sent r where f: "for_device_indexes net y_delta poses 0 js [] = (sent, r)"
    by (cases "for_device_indexes net y_delta poses 0 js []")
  have "r \<noteq> None"
  proof
    assume "r = None"
    with f for_device_indexes_None [of net y_delta poses 0 js "[]" sent]
    have "(\<forall>j\<in>set js. \<exists>v. read_pose poses j = Inr v) \<and> (\<forall>n<4 * length js. net n = None)"
      by simp
    with assms show False by force
  qed
  with f show ?thesis by auto
qed

text \<open>
  C7. In a tick that does not find the flag set, the first failure ends the loop at
  once, whatever its exception \<open>e\<close>: the events of the tick are the messages sent before
  the failure and then the error dialog for \<open>e\<close> (critical log entry, message box,
  termination flag, \<^verbatim>\<open>wx.Exit()\<close>), nothing is sent after it, the loop returns with \<open>e\<close>
  and the later ticks do not run, after any number of completed ticks.

  \<^item> The bulk pose read raises \<open>e\<close>: nothing is sent.
  \<^item> The transform of channel \<open>c + 1\<close> raises \<open>e\<close> (the index is out of range, or
    \<^verbatim>\<open>get_position\<close> raises, or \<^verbatim>\<open>get_euler_angle\<close> raises after it), the channels before
    it having completed: the messages are those of the first \<open>c\<close> channels.
  \<^item> Send number \<open>r\<close> (from 0) of channel \<open>c + 1\<close> raises \<open>e\<close>, everything before it
    having succeeded: the messages are those of the first \<open>c\<close> channels and the first
    \<open>r\<close> of channel \<open>c + 1\<close>.
  \<^item> Whenever some transform or some send of the tick fails, the tick ends in the error
    dialog and the loop returns with an exception.
\<close>

theorem failure_aborts_loop:
  assumes "\<not> thread_terminate env"
    and "streaming_loop device_indexes y_delta before = (evs0, Running)"
  shows
    "(getLastPoses env = Inl e \<longrightarrow>
        tick device_indexes y_delta env =
          ([Logger_critical e, Message_box e, Set_thread_terminate, Wx_exit], Return_error e) \<and>
        streaming_loop device_indexes y_delta (before @ env # after) =
          (evs0 @ [Logger_critical e, Message_box e, Set_thread_terminate, Wx_exit],
           Failed e)) \<and>
     (getLastPoses env = Inr poses \<and> c < length device_indexes \<and>
      (\<forall>j\<in>set (take c device_indexes). j < length poses \<and> well_formed (poses ! j) \<and>
         get_euler_angle (poses ! j) = Inr (rot_of j)) \<and>
      (\<forall>n<4 * c. send_raises env n = None) \<and>
      (length poses \<le> device_indexes ! c \<and> e = IndexError \<or>
       device_indexes ! c < length poses \<and>
         (get_position (poses ! (device_indexes ! c)) = Inl e \<or>
          (\<exists>pos. get_position (poses ! (device_indexes ! c)) = Inr pos) \<and>
          get_euler_angle (poses ! (device_indexes ! c)) = Inl e)) \<longrightarrow>
        tick device_indexes y_delta env =
          (map Send_message
             (tick_messages y_delta 1 (map (\<lambda>j. (poses ! j, rot_of j)) (take c device_indexes))) @
           [Logger_critical e, Message_box e, Set_thread_terminate, Wx_exit],
           Return_error e) \<and>
        streaming_loop device_indexes y_delta (before @ env # after) =
          (evs0 @
           map Send_message
             (tick_messages y_delta 1 (map (\<lambda>j. (poses ! j, rot_of j)) (take c device_indexes))) @
           [Logger_critical e, Message_box e, Set_thread_terminate, Wx_exit],
           Failed e)) \<and>
     (getLastPoses env = Inr poses \<and> c < length device_indexes \<and> r < 4 \<and>
      (\<forall>j\<in>set (take (Suc c) device_indexes). j < length poses \<and> well_formed (poses ! j) \<and>
         get_euler_angle (poses ! j) = Inr (rot_of j)) \<and>
      (\<forall>n<4 * c + r. send_raises env n = None) \<and>
      send_raises env (4 * c + r) = Some e \<longrightarrow>
        tick device_indexes y_delta env =
          (map Send_message
             (tick_messages y_delta 1 (map (\<lambda>j. (poses ! j, rot_of j)) (take c device_indexes)) @
              take r (channel_messages y_delta (c + 1)
                        (poses ! (device_indexes ! c), rot_of (device_indexes ! c)))) @
           [Logger_critical e, Message_box e, Set_thread_terminate, Wx_exit],
           Return_error e) \<and>
        streaming_loop device_indexes y_delta (before @ env # after) =
          (evs0 @
           map Send_message
             (tick_messages y_delta 1 (map (\<lambda>j. (poses ! j, rot_of j)) (take c device_indexes)) @
              take r (channel_messages y_delta (c + 1)
                        (poses ! (device_indexes ! c), rot_of (device_indexes ! c)))) @
           [Logger_critical e, Message_box e, Set_thread_terminate, Wx_exit],
           Failed e)) \<and>
     (getLastPoses env = Inr poses \<and>
      ((\<exists>j\<in>set device_indexes. \<exists>x. read_pose poses j = Inl x) \<or>
       (\<exists>n<4 * length device_indexes. send_raises env n \<noteq> None)) \<longrightarrow>
        (\<exists>x sent.
           tick device_indexes y_delta env =
             (map Send_message sent @
              [Logger_critical x, Message_box x, Set_thread_terminate, Wx_exit],
              Return_error x) \<and>
           streaming_loop device_indexes y_delta (before @ env # after) =
             (evs0 @ map Send_message sent @
              [Logger_critical x, Message_box x, Set_thread_terminate, Wx_exit],
              Failed x)))"
proof -
  note loop = streaming_loop_append [OF assms(2), of "env # after"]
  have aborts: "streaming_loop device_indexes y_delta (before @ env # after) =
      (evs0 @ evs, Failed x)"
    if "tick device_indexes y_delta env = (evs, Return_error x)" for evs x
    using loop that by simp
  have read: "getLastPoses env = Inl e \<longrightarrow>
      tick device_indexes y_delta env =
        ([Logger_critical e, Message_box e, Set_thread_terminate, Wx_exit], Return_error e) \<and>
      streaming_loop device_indexes y_delta (before @ env # after) =
        (evs0 @ [Logger_critical e, Message_box e, Set_thread_terminate, Wx_exit], Failed e)"
  proof
    assume "getLastPoses env = Inl e"
    with assms(1) have t: "tick device_indexes y_delta env =
        ([Logger_critical e, Message_box e, Set_thread_terminate, Wx_exit], Return_error e)"
      by (simp add: tick_def error_handling_def)
    with aborts [OF t] show "tick device_indexes y_delta env =
        ([Logger_critical e, Message_box e, Set_thread_terminate, Wx_exit], Return_error e) \<and>
      streaming_loop device_indexes y_delta (before @ env # after) =
        (evs0 @ [Logger_critical e, Message_box e, Set_thread_terminate, Wx_exit], Failed e)"
      by simp
  qed
  let ?done = "tick_messages y_delta 1 (map (\<lambda>j. (poses ! j, rot_of j)) (take c device_indexes))"
  let ?part = "take r (channel_messages y_delta (c + 1)
      (poses ! (device_indexes ! c), rot_of (device_indexes ! c)))"
  have transform: "getLastPoses env = Inr poses \<and> c < length device_indexes \<and>
      (\<forall>j\<in>set (take c device_indexes). j < length poses \<and> well_formed (poses ! j) \<and>
         get_euler_angle (poses ! j) = Inr (rot_of j)) \<and>
      (\<forall>n<4 * c. send_raises env n = None) \<and>
      (length poses \<le> device_indexes ! c \<and> e = IndexError \<or>
       device_indexes ! c < length poses \<and>
         (get_position (poses ! (device_indexes ! c)) = Inl e \<or>
          (\<exists>pos. get_position (poses ! (device_indexes ! c)) = Inr pos) \<and>
          get_euler_angle (poses ! (device_indexes ! c)) = Inl e)) \<longrightarrow>
      tick device_indexes y_delta env =
        (map Send_message ?done @
         [Logger_critical e, Message_box e, Set_thread_terminate, Wx_exit], Return_error e) \<and>
      streaming_loop device_indexes y_delta (before @ env # after) =
        (evs0 @ map Send_message ?done @
         [Logger_critical e, Message_box e, Set_thread_terminate, Wx_exit], Failed e)"
  proof
    assume a: "getLastPoses env = Inr poses \<and> c < length device_indexes \<and>
      (\<forall>j\<in>set (take c device_indexes). j < length poses \<and> well_formed (poses ! j) \<and>
         get_euler_angle (poses ! j) = Inr (rot_of j)) \<and>
      (\<forall>n<4 * c. send_raises env n = None) \<and>
      (length poses \<le> device_indexes ! c \<and> e = IndexError \<or>
       device_indexes ! c < length poses \<and>
         (get_position (poses ! (device_indexes ! c)) = Inl e \<or>
          (\<exists>pos. get_position (poses ! (device_indexes ! c)) = Inr pos) \<and>
          get_euler_angle (poses ! (device_indexes ! c)) = Inl e))"
    then have c: "c < length device_indexes"
      and pre: "\<forall>j\<in>set (take c device_indexes). j < length poses \<and> well_formed (poses ! j) \<and>
         get_euler_angle (poses ! j) = Inr (rot_of j)"
      and sends: "\<forall>n<4 * c. send_raises env n = None"
      by simp_all
    from a have "read_pose poses (device_indexes ! c) = Inl e"
      by (intro read_pose_raises) simp
    from for_device_indexes_transform_raises [OF c pre sends this, of y_delta]
    have t: "tick device_indexes y_delta env =
        (map Send_message ?done @
         [Logger_critical e, Message_box e, Set_thread_terminate, Wx_exit], Return_error e)"
      using assms(1) a by (simp add: tick_def error_handling_def)
    with aborts [OF t] show "tick device_indexes y_delta env =
        (map Send_message ?done @
         [Logger_critical e, Message_box e, Set_thread_terminate, Wx_exit], Return_error e) \<and>
      streaming_loop device_indexes y_delta (before @ env # after) =
        (evs0 @ map Send_message ?done @
         [Logger_critical e, Message_box e, Set_thread_terminate, Wx_exit], Failed e)"
      by simp
  qed
  have send: "getLastPoses env = Inr poses \<and> c < length device_indexes \<and> r < 4 \<and>
      (\<forall>j\<in>set (take (Suc c) device_indexes). j < length poses \<and> well_formed (poses ! j) \<and>
         get_euler_angle (poses ! j) = Inr (rot_of j)) \<and>
      (\<forall>n<4 * c + r. send_raises env n = None) \<and>
      send_raises env (4 * c + r) = Some e \<longrightarrow>
      tick device_indexes y_delta env =
        (map Send_message (?done @ ?part) @
         [Logger_critical e, Message_box e, Set_thread_terminate, Wx_exit], Return_error e) \<and>
      streaming_loop device_indexes y_delta (before @ env # after) =
        (evs0 @ map Send_message (?done @ ?part) @
         [Logger_critical e, Message_box e, Set_thread_terminate, Wx_exit], Failed e)"
  proof
    assume a: "getLastPoses env = Inr poses \<and> c < length device_indexes \<and> r < 4 \<and>
      (\<forall>j\<in>set (take (Suc c) device_indexes). j < length poses \<and> well_formed (poses ! j) \<and>
         get_euler_angle (poses ! j) = Inr (rot_of j)) \<and>
      (\<forall>n<4 * c + r. send_raises env n = None) \<and>
      send_raises env (4 * c + r) = Some e"
    then have c: "c < length device_indexes" and r: "r < 4"
      and pre: "\<forall>j\<in>set (take (Suc c) device_indexes). j < length poses \<and>
         well_formed (poses ! j) \<and> get_euler_angle (poses ! j) = Inr (rot_of j)"
      and sends: "\<forall>n<4 * c + r. send_raises env n = None"
      and fails: "send_raises env (4 * c + r) = Some e"
      by simp_all
    from for_device_indexes_send_raises [OF c r pre sends fails, of y_delta]
    have t: "tick device_indexes y_delta env =
        (map Send_message (?done @ ?part) @
         [Logger_critical e, Message_box e, Set_thread_terminate, Wx_exit], Return_error e)"
      using assms(1) a by (simp add: tick_def error_handling_def)
    with aborts [OF t] show "tick device_indexes y_delta env =
        (map Send_message (?done @ ?part) @
         [Logger_critical e, Message_box e, Set_thread_terminate, Wx_exit], Return_error e) \<and>
      streaming_loop device_indexes y_delta (before @ env # after) =
        (evs0 @ map Send_message (?done @ ?part) @
         [Logger_critical e, Message_box e, Set_thread_terminate, Wx_exit], Failed e)"
      by simp
  qed
  have any: "getLastPoses env = Inr poses \<and>
      ((\<exists>j\<in>set device_indexes. \<exists>x. read_pose poses j = Inl x) \<or>
       (\<exists>n<4 * length device_indexes. send_raises env n \<noteq> None)) \<longrightarrow>
      (\<exists>x sent.
         tick device_indexes y_delta env =
           (map Send_message sent @
            [Logger_critical x, Message_box x, Set_thread_terminate, Wx_exit],
            Return_error x) \<and>
         streaming_loop device_indexes y_delta (before @ env # after) =
           (evs0 @ map Send_message sent @
            [Logger_critical x, Message_box x, Set_thread_terminate, Wx_exit],
            Failed x))"
  proof
    assume a: "getLastPoses env = Inr poses \<and>
      ((\<exists>j\<in>set device_indexes. \<exists>x. read_pose poses j = Inl x) \<or>
       (\<exists>n<4 * length device_indexes. send_raises env n \<noteq> None))"
    then have "(\<exists>j\<in>set device_indexes. \<exists>x. read_pose poses j = Inl x) \<or>
       (\<exists>n<4 * length device_indexes. send_raises env n \<noteq> None)"
      by simp
    from for_device_indexes_raises [OF this, of y_delta] obtain sent x
      where "for_device_indexes (send_raises env) y_delta poses 0 device_indexes [] =
        (sent, Some x)"
      by blast
    then have t: "tick device_indexes y_delta env =
        (map Send_message sent @
         [Logger_critical x, Message_box x, Set_thread_terminate, Wx_exit], Return_error x)"
      using assms(1) a by (simp add: tick_def error_handling_def)
    from aborts [OF t] t show "\<exists>x sent.
         tick device_indexes y_delta env =
           (map Send_message sent @
            [Logger_critical x, Message_box x, Set_thread_terminate, Wx_exit],
            Return_error x) \<and>
         streaming_loop device_indexes y_delta (before @ env # after) =
           (evs0 @ map Send_message sent @
            [Logger_critical x, Message_box x, Set_thread_terminate, Wx_exit],
            Failed x)"
      by blast
  qed
  show ?thesis
    by (rule conjI [OF read conjI [OF transform conjI [OF send any]]])
qed

theorem failure_aborts_loop_witness:
  "streaming_loop [0, 1] 0
     (\<lparr>thread_terminate = False, getLastPoses = Inl (External ''OpenVRError''),
        send_raises = no_send_failure\<rparr> #
      [\<lparr>thread_terminate = False,
        getLastPoses = Inr [[[1, 0, 0, 5], [0, 1, 0, 6], [0, 0, 1, 7]],
                            [[1, 0, 0, 1], [0, 1, 0, 2], [0, 0, 1, 3]]],
        send_raises = no_send_failure\<rparr>]) =
     ([Logger_critical (External ''OpenVRError''), Message_box (External ''OpenVRError''),
       Set_thread_terminate, Wx_exit],
      Failed (External ''OpenVRError'')) \<and>
   streaming_loop [0, 1] 0
     (\<lparr>thread_terminate = False,
        getLastPoses = Inr [[[1, 0, 0, 5], [0, 1, 0, 6], [0, 0, 1, 7]],
                            [[0, 0, 0, 0], [0, 0, 0, 0], [0, 0, 0, 0]]],
        send_raises = no_send_failure\<rparr> #
      [\<lparr>thread_terminate = False,
        getLastPoses = Inr [[[1, 0, 0, 5], [0, 1, 0, 6], [0, 0, 1, 7]],
                            [[1, 0, 0, 1], [0, 1, 0, 2], [0, 0, 1, 3]]],
        send_raises = no_send_failure\<rparr>]) =
     ([Send_message (''/tracking/trackers/1/position'', [- 5, 6, 7]),
       Send_message (''/tracking/trackers/1/rotation/x'', [0]),
       Send_message (''/tracking/trackers/1/rotation/y'', [0]),
       Send_message (''/tracking/trackers/1/rotation/z'', [0]),
       Logger_critical ZeroDivisionError, Message_box ZeroDivisionError,
       Set_thread_terminate, Wx_exit],
      Failed ZeroDivisionError) \<and>
   streaming_loop [0, 1] 0
     (\<lparr>thread_terminate = False,
        getLastPoses = Inr [[[1, 0, 0, 5], [0, 1, 0, 6], [0, 0, 1, 7]],
                            [[1, 0, 0, 1], [0, 1, 0, 2], [0, 0, 1, 3]]],
        send_raises = (\<lambda>n. if n = 5 then Some (External ''OSError'') else None)\<rparr> #
      [\<lparr>thread_terminate = False,
        getLastPoses = Inr [[[1, 0, 0, 5], [0, 1, 0, 6], [0, 0, 1, 7]],
                            [[1, 0, 0, 1], [0, 1, 0, 2], [0, 0, 1, 3]]],
        send_raises = no_send_failure\<rparr>]) =
     ([Send_message (''/tracking/trackers/1/position'', [- 5, 6, 7]),
       Send_message (''/tracking/trackers/1/rotation/x'', [0]),
       Send_message (''/tracking/trackers/1/rotation/y'', [0]),
       Send_message (''/tracking/trackers/1/rotation/z'', [0]),
       Send_message (''/tracking/trackers/2/position'', [- 1, 2, 3]),
       Logger_critical (External ''OSError''), Message_box (External ''OSError''),
       Set_thread_terminate, Wx_exit],
      Failed (External ''OSError'')) \<and>
   (\<exists>x sent.
      streaming_loop [7] 0
        [\<lparr>thread_terminate = False,
           getLastPoses = Inr [[[1, 0, 0, 5], [0, 1, 0, 6], [0, 0, 1, 7]],
                               [[1, 0, 0, 1], [0, 1, 0, 2], [0, 0, 1, 3]]],
           send_raises = no_send_failure\<rparr>] =
        (map Send_message sent @
         [Logger_critical x, Message_box x, Set_thread_terminate, Wx_exit], Failed x))"
proof -
  let ?ok = "[[[1, 0, 0, 5], [0, 1, 0, 6], [0, 0, 1, 7]],
              [[1, 0, 0, 1], [0, 1, 0, 2], [0, 0, 1, 3 :: real]]]"
  let ?zero = "[[[1, 0, 0, 5], [0, 1, 0, 6], [0, 0, 1, 7]],
                [[0, 0, 0, 0], [0, 0, 0, 0], [0, 0, 0, 0 :: real]]]"
  let ?next = "[\<lparr>thread_terminate = False, getLastPoses = Inr ?ok,
                  send_raises = no_send_failure\<rparr>]"
  let ?read_env = "\<lparr>thread_terminate = False, getLastPoses = Inl (External ''OpenVRError''),
                    send_raises = no_send_failure\<rparr>"
  let ?zero_env = "\<lparr>thread_terminate = False, getLastPoses = Inr ?zero,
                    send_raises = no_send_failure\<rparr>"
  let ?send_env = "\<lparr>thread_terminate = False, getLastPoses = Inr ?ok,
                    send_raises = (\<lambda>n. if n = 5 then Some (External ''OSError'') else None)\<rparr>"
  let ?ok_env = "\<lparr>thread_terminate = False, getLastPoses = Inr ?ok,
                  send_raises = no_send_failure\<rparr>"
  let ?rot = "\<lambda>j :: nat. (0 :: real, 0 :: real, 0 :: real)"
  have start: "streaming_loop [0, 1] 0 [] = ([], Running)"
    and start7: "streaming_loop [7] 0 [] = ([], Running)"
    by simp_all
  have flag_read: "\<not> thread_terminate ?read_env"
    and flag_zero: "\<not> thread_terminate ?zero_env"
    and flag_send: "\<not> thread_terminate ?send_env"
    and flag_ok: "\<not> thread_terminate ?ok_env"
    by simp_all

  have read: "getLastPoses ?read_env = Inl (External ''OpenVRError'')" by simp
  from failure_aborts_loop [OF flag_read start, where after = ?next
      and e = "External ''OpenVRError''", THEN conjunct1, THEN mp, OF read, THEN conjunct2]
  have first: "streaming_loop [0, 1] 0 (?read_env # ?next) =
      ([Logger_critical (External ''OpenVRError''), Message_box (External ''OpenVRError''),
        Set_thread_terminate, Wx_exit], Failed (External ''OpenVRError''))"
    by simp

  have zero: "getLastPoses ?zero_env = Inr ?zero \<and> (1 :: nat) < length [0 :: nat, 1] \<and>
      (\<forall>j\<in>set (take 1 [0 :: nat, 1]). j < length ?zero \<and> well_formed (?zero ! j) \<and>
         get_euler_angle (?zero ! j) = Inr (?rot j)) \<and>
      (\<forall>n<4 * 1. send_raises ?zero_env n = None) \<and>
      (length ?zero \<le> [0 :: nat, 1] ! 1 \<and> ZeroDivisionError = IndexError \<or>
       [0 :: nat, 1] ! 1 < length ?zero \<and>
         (get_position (?zero ! ([0 :: nat, 1] ! 1)) = Inl ZeroDivisionError \<or>
          (\<exists>pos. get_position (?zero ! ([0 :: nat, 1] ! 1)) = Inr pos) \<and>
          get_euler_angle (?zero ! ([0 :: nat, 1] ! 1)) = Inl ZeroDivisionError))"
    by (simp add: well_formed_def get_position_def get_euler_angle_def item_def getitem_def
        bind_exn_def asin_def truediv_def atan_def no_send_failure_def)
  from failure_aborts_loop [OF flag_zero start, where after = ?next
      and e = ZeroDivisionError and poses = ?zero and c = 1 and rot_of = ?rot,
      THEN conjunct2, THEN conjunct1, THEN mp, OF zero, THEN conjunct2]
  have second: "streaming_loop [0, 1] 0 (?zero_env # ?next) =
      ([Send_message (''/tracking/trackers/1/position'', [- 5, 6, 7]),
        Send_message (''/tracking/trackers/1/rotation/x'', [0]),
        Send_message (''/tracking/trackers/1/rotation/y'', [0]),
        Send_message (''/tracking/trackers/1/rotation/z'', [0]),
        Logger_critical ZeroDivisionError, Message_box ZeroDivisionError,
        Set_thread_terminate, Wx_exit], Failed ZeroDivisionError)"
    by (simp add: channel_messages_def str.simps digit_def)

  have send: "getLastPoses ?send_env = Inr ?ok \<and> (1 :: nat) < length [0 :: nat, 1] \<and>
      (1 :: nat) < 4 \<and>
      (\<forall>j\<in>set (take (Suc 1) [0 :: nat, 1]). j < length ?ok \<and> well_formed (?ok ! j) \<and>
         get_euler_angle (?ok ! j) = Inr (?rot j)) \<and>
      (\<forall>n<4 * 1 + 1. send_raises ?send_env n = None) \<and>
      send_raises ?send_env (4 * 1 + 1) = Some (External ''OSError'')"
    by (simp add: well_formed_def get_euler_angle_def item_def getitem_def
        bind_exn_def asin_def truediv_def atan_def)
  from failure_aborts_loop [OF flag_send start, where after = ?next
      and e = "External ''OSError''" and poses = ?ok and c = 1 and r = 1 and rot_of = ?rot,
      THEN conjunct2, THEN conjunct2, THEN conjunct1, THEN mp, OF send, THEN conjunct2]
  have third: "streaming_loop [0, 1] 0 (?send_env # ?next) =
      ([Send_message (''/tracking/trackers/1/position'', [- 5, 6, 7]),
        Send_message (''/tracking/trackers/1/rotation/x'', [0]),
        Send_message (''/tracking/trackers/1/rotation/y'', [0]),
        Send_message (''/tracking/trackers/1/rotation/z'', [0]),
        Send_message (''/tracking/trackers/2/position'', [- 1, 2, 3]),
        Logger_critical (External ''OSError''), Message_box (External ''OSError''),
        Set_thread_terminate, Wx_exit], Failed (External ''OSError''))"
    by (simp add: channel_messages_def str.simps digit_def)

  have "read_pose ?ok 7 = Inl IndexError"
    by (simp add: read_pose_def getitem_def bind_exn_def)
  then have any: "getLastPoses ?ok_env = Inr ?ok \<and>
      ((\<exists>j\<in>set [7]. \<exists>x. read_pose ?ok j = Inl x) \<or>
       (\<exists>n<4 * length [7 :: nat]. send_raises ?ok_env n \<noteq> None))"
    by simp
  from failure_aborts_loop [OF flag_ok start7, where after = "[]" and poses = ?ok,
      THEN conjunct2, THEN conjunct2, THEN conjunct2, THEN mp, OF any]
  obtain x sent where "streaming_loop [7] 0 ([] @ ?ok_env # []) =
      ([] @ map Send_message sent @
       [Logger_critical x, Message_box x, Set_thread_terminate, Wx_exit], Failed x)"
    by blast
  then have "streaming_loop [7] 0 [?ok_env] =
      (map Send_message sent @
       [Logger_critical x, Message_box x, Set_thread_terminate, Wx_exit], Failed x)"
    by (simp only: append_Nil)
  then have fourth: "\<exists>x sent. streaming_loop [7] 0 [?ok_env] =
      (map Send_message sent @
       [Logger_critical x, Message_box x, Set_thread_terminate, Wx_exit], Failed x)"
    by blast

  from first second third fourth show ?thesis by (simp only: simp_thms)
qed

section \<open>Startup and calibration\<close>

lemma resolve_devices_returns:
  assumes "rt n = ''''"
  shows "\<exists>r. resolve_devices rt ignore use_device device_indexes = Some r"
proof (induction use_device arbitrary: device_indexes)
  case Nil
  then show ?case by simp
next
  case (Cons device rest)
  from get_device_index_returns [of rt n device ignore] assms
  obtain r where r: "get_device_index rt device ignore = Some r" by blast
  show ?case
  proof (cases r)
    case (Inl e)
    with r show ?thesis by simp
  next
    case (Inr found)
    with r Cons.IH show ?thesis by (cases found) simp_all
  qed
qed

lemma get_device_index_loop_not_ignored:
  assumes "get_device_index_loop rt name ignore i = Some r" and "\<not> ignore"
  shows "r \<noteq> Inr None"
  using assms
  by (induction rule: get_device_index_loop.raw_induct [rotated 1, consumes 1])
     (auto split: if_splits)

lemma get_all_device_serial_Some:
  assumes "get_all_device_serial rt = Some serials"
  shows "\<exists>n. rt n = '''' \<and> (\<forall>j<n. rt j \<noteq> '''') \<and> serials = map rt [0..<n]"
  using get_all_device_serial_loop_sentinel [of rt "[]" 0 serials] assms
  by (simp add: get_all_device_serial_def)

lemma no_message_in_error_handling: "Send_message m \<notin> set (error_handling e)"
  by (simp add: error_handling_def)

text \<open>
  C5. When the client is created and every configured serial is resolved, a list of
  device indexes of length 0 or of length greater than 8 makes the \<^verbatim>\<open>assert\<close> fail:
  the run ends with the error dialog for \<^verbatim>\<open>AssertionError\<close> and without any message
  sent. A run in which a message is sent has between 1 and 8 device indexes, and with
  that many the startup block succeeds.
\<close>

theorem invalid_device_count:
  assumes "client_raises env = None"
    and "resolve_devices (device_serial env) ignore use_device [] = Some (Inr device_indexes)"
  shows "(length device_indexes = 0 \<or> 8 < length device_indexes \<longrightarrow>
            startup env use_device ignore = Some (Inl AssertionError) \<and>
            run_tracker_server env ticks use_device ignore standard_device delta =
              Some (error_handling AssertionError, Failed AssertionError) \<and>
            Send_message m \<notin> set (error_handling AssertionError)) \<and>
         (run_tracker_server env ticks use_device ignore standard_device delta = Some (evs, r) \<and>
            Send_message m \<in> set evs \<longrightarrow>
            1 \<le> length device_indexes \<and> length device_indexes \<le> 8) \<and>
         (1 \<le> length device_indexes \<and> length device_indexes \<le> 8 \<longrightarrow>
            startup env use_device ignore = Some (Inr device_indexes))"
proof (intro conjI impI)
  assume bad: "length device_indexes = 0 \<or> 8 < length device_indexes"
  with assms show s: "startup env use_device ignore = Some (Inl AssertionError)"
    by (auto simp: startup_def)
  then show "run_tracker_server env ticks use_device ignore standard_device delta =
      Some (error_handling AssertionError, Failed AssertionError)"
    by (simp add: run_tracker_server_def)
  show "Send_message m \<notin> set (error_handling AssertionError)"
    by (rule no_message_in_error_handling)
next
  assume run: "run_tracker_server env ticks use_device ignore standard_device delta =
      Some (evs, r) \<and> Send_message m \<in> set evs"
  have "\<not> (length device_indexes = 0 \<or> 8 < length device_indexes)"
  proof
    assume "length device_indexes = 0 \<or> 8 < length device_indexes"
    with assms have "startup env use_device ignore = Some (Inl AssertionError)"
      by (auto simp: startup_def)
    with run have "Send_message m \<in> set (error_handling AssertionError)"
      by (auto simp: run_tracker_server_def)
    then show False by (simp add: no_message_in_error_handling)
  qed
  then show "1 \<le> length device_indexes" and "length device_indexes \<le> 8"
    by (simp_all add: Suc_le_eq)
next
  assume "1 \<le> length device_indexes \<and> length device_indexes \<le> 8"
  with assms show "startup env use_device ignore = Some (Inr device_indexes)"
    by (auto simp: startup_def)
qed


lemma get_device_index_slots_A:
  "get_device_index (slots [''A'']) ''A'' ignore = Some (Inr (Some 0))"
proof -
  have "\<forall>j<0. slots [''A''] j \<noteq> ''A'' \<and> slots [''A''] j \<noteq> ''''" by simp
  moreover have "slots [''A''] 0 = ''A''" by (simp add: slots_def)
  ultimately show ?thesis
    using get_device_index_first [of 0 "slots [''A'']" "''A''" ignore] by simp
qed

theorem invalid_device_count_witness:
  "run_tracker_server
     \<lparr>client_raises = None, device_serial = slots [''A''], calibration_poses = Inr []\<rparr>
     [] [] False None 0 =
     Some (error_handling AssertionError, Failed AssertionError) \<and>
   run_tracker_server
     \<lparr>client_raises = None, device_serial = slots [''A''], calibration_poses = Inr []\<rparr>
     [] [''A'', ''A'', ''A'', ''A'', ''A'', ''A'', ''A'', ''A'', ''A''] False None 0 =
     Some (error_handling AssertionError, Failed AssertionError) \<and>
   startup
     \<lparr>client_raises = None, device_serial = slots [''A''], calibration_poses = Inr []\<rparr>
     [''A''] False = Some (Inr [0])"
proof -
  let ?env = "\<lparr>client_raises = None, device_serial = slots [''A''],
               calibration_poses = Inr []\<rparr>"
  have client: "client_raises ?env = None" by simp
  have none: "resolve_devices (device_serial ?env) False [] [] = Some (Inr [])" by simp
  have nine: "resolve_devices (device_serial ?env) False
      [''A'', ''A'', ''A'', ''A'', ''A'', ''A'', ''A'', ''A'', ''A''] [] =
      Some (Inr [0, 0, 0, 0, 0, 0, 0, 0, 0])"
    by (simp add: get_device_index_slots_A)
  have one: "resolve_devices (device_serial ?env) False [''A''] [] = Some (Inr [0])"
    by (simp add: get_device_index_slots_A)
  show ?thesis
    using invalid_device_count [OF client none, of "[]" None 0]
      invalid_device_count [OF client nine, of "[]" None 0]
      invalid_device_count [OF client one]
    by simp
qed

text \<open>
  C3. Without a reference device the offset is 0. With a reference device that resolves
  to slot \<open>i\<close> and a pose read that has the entry \<open>[1][3]\<close> of that slot, the offset is
  the negated entry plus \<open>delta\<close>. The offset is computed between the startup block and
  the loop, and the whole loop runs with that one value.
\<close>

theorem calibration_offset:
  "calibration env None delta = Some (Inr 0) \<and>
   (get_device_index (device_serial env) name False = Some (Inr (Some i)) \<and>
    calibration_poses env = Inr poses \<and> i < length poses \<and>
    1 < length (poses ! i) \<and> 3 < length (poses ! i ! 1) \<longrightarrow>
      calibration env (Some name) delta = Some (Inr (- (poses ! i ! 1 ! 3) + delta))) \<and>
   (startup env use_device ignore = Some (Inr device_indexes) \<and>
    calibration env standard_device delta = Some (Inr y_delta) \<longrightarrow>
      run_tracker_server env ticks use_device ignore standard_device delta =
        Some (streaming_loop device_indexes y_delta ticks))"
  by (simp add: calibration_def run_tracker_server_def item_def getitem_def bind_exn_def)

theorem calibration_offset_witness:
  "calibration
     \<lparr>client_raises = None, device_serial = slots [''A''],
      calibration_poses = Inr [[[1, 0, 0, 0], [0, 1, 0, 1.2], [0, 0, 1, 0]]]\<rparr>
     (Some ''A'') 0.05 = Some (Inr (- 1.15)) \<and>
   run_tracker_server
     \<lparr>client_raises = None, device_serial = slots [''A''],
      calibration_poses = Inr [[[1, 0, 0, 0], [0, 1, 0, 1.2], [0, 0, 1, 0]]]\<rparr>
     [] [''A''] False (Some ''A'') 0.05 = Some (streaming_loop [0] (- 1.15) [])"
proof -
  let ?poses = "[[[1, 0, 0, 0], [0, 1, 0, 1.2], [0, 0, 1, 0 :: real]]]"
  let ?env = "\<lparr>client_raises = None, device_serial = slots [''A''],
               calibration_poses = Inr ?poses\<rparr>"
  have found: "get_device_index (device_serial ?env) ''A'' False = Some (Inr (Some 0)) \<and>
      calibration_poses ?env = Inr ?poses \<and> 0 < length ?poses \<and>
      1 < length (?poses ! 0) \<and> 3 < length (?poses ! 0 ! 1)"
    by (simp add: get_device_index_slots_A)
  with calibration_offset [where env = ?env and delta = "0.05" and name = "''A''"
      and i = 0 and poses = ?poses]
  have offset: "calibration ?env (Some ''A'') 0.05 = Some (Inr (- 1.15))" by simp
  have "startup ?env [''A''] False = Some (Inr [0])"
    by (simp add: startup_def get_device_index_slots_A)
  with offset calibration_offset [where env = ?env and delta = "0.05"
      and use_device = "[''A'']" and ignore = False and device_indexes = "[0]"
      and standard_device = "Some ''A''" and y_delta = "- 1.15" and ticks = "[]"]
  show ?thesis by simp
qed

lemma startup_returns:
  assumes "device_serial env n = ''''"
  shows "\<exists>r. startup env use_device ignore = Some r"
proof -
  from resolve_devices_returns [of "device_serial env" n ignore use_device "[]"] assms
  obtain r where "resolve_devices (device_serial env) ignore use_device [] = Some r"
    by blast
  then show ?thesis
    by (cases r) (auto simp: startup_def split: option.splits)
qed

text \<open>
  A reference serial that is not empty and not among the serials the runtime enumerates:
  its resolution raises, whatever the ignore flag is, since the call passes
  \<^verbatim>\<open>False\<close>, and a call with \<^verbatim>\<open>False\<close> never returns \<^verbatim>\<open>None\<close>. So the run
  ends with the error dialog, of this exception or of one raised earlier in the startup
  block.
\<close>

lemma missing_reference_device_is_fatal:
  assumes "get_all_device_serial (device_serial env) = Some serials"
    and "name \<notin> set serials"
    and "name \<noteq> ''''"
  shows "get_device_index (device_serial env) name False = Some (Inl RuntimeError) \<and>
         calibration env (Some name) delta = Some (Inl RuntimeError) \<and>
         (\<exists>e. run_tracker_server env ticks use_device ignore (Some name) delta =
                Some (error_handling e, Failed e)) \<and>
         get_device_index (device_serial env) other False \<noteq> Some (Inr None)"
proof (intro conjI)
  from get_all_device_serial_Some [OF assms(1)] obtain n
    where n: "device_serial env n = ''''" "\<forall>j<n. device_serial env j \<noteq> ''''"
      "serials = map (device_serial env) [0..<n]"
    by blast
  have "\<forall>j<n. device_serial env j \<noteq> name \<and> device_serial env j \<noteq> ''''"
  proof (intro allI impI)
    fix j assume "j < n"
    with n(3) have "device_serial env j \<in> set serials" by simp
    with assms(2) n(2) \<open>j < n\<close>
    show "device_serial env j \<noteq> name \<and> device_serial env j \<noteq> ''''" by auto
  qed
  from get_device_index_first [OF this, of False] n(1) assms(3)
  show raised: "get_device_index (device_serial env) name False = Some (Inl RuntimeError)"
    by auto
  then show cal: "calibration env (Some name) delta = Some (Inl RuntimeError)"
    by (simp add: calibration_def)
  from startup_returns [OF n(1), of use_device ignore]
  obtain r where r: "startup env use_device ignore = Some r" by blast
  show "\<exists>e. run_tracker_server env ticks use_device ignore (Some name) delta =
      Some (error_handling e, Failed e)"
  proof (cases r)
    case (Inl e)
    with r show ?thesis by (simp add: run_tracker_server_def)
  next
    case (Inr device_indexes)
    with r cal show ?thesis by (simp add: run_tracker_server_def)
  qed
  show "get_device_index (device_serial env) other False \<noteq> Some (Inr None)"
    using get_device_index_loop_not_ignored [of "device_serial env" other False 0 "Inr None"]
    by (auto simp: get_device_index_def)
qed

lemma get_all_device_serial_slots_A: "get_all_device_serial (slots [''A'']) = Some [''A'']"
proof -
  have "slots [''A''] (0 + 1) = ''''" and "\<forall>j<1. slots [''A''] (0 + j) \<noteq> ''''"
    by (simp_all add: slots_def)
  from get_all_device_serial_loop_returns [OF this, of "[]"]
  have "get_all_device_serial_loop (slots [''A'']) [] 0 =
      Some ([] @ map (slots [''A'']) [0..<0 + 1])" .
  moreover have "map (slots [''A'']) [0..<0 + 1] = [''A'']" by (simp add: slots_def)
  ultimately show ?thesis by (simp add: get_all_device_serial_def)
qed

lemma missing_reference_device_is_fatal_example:
  "run_tracker_server
     \<lparr>client_raises = None, device_serial = slots [''A''],
      calibration_poses = Inr [[[1, 0, 0, 0], [0, 1, 0, 1.2], [0, 0, 1, 0]]]\<rparr>
     [] [''A''] True (Some ''B'') 0.05 =
     Some (error_handling RuntimeError, Failed RuntimeError) \<and>
   run_tracker_server
     \<lparr>client_raises = None, device_serial = slots [''A''],
      calibration_poses = Inr [[[1, 0, 0, 0], [0, 1, 0, 1.2], [0, 0, 1, 0]]]\<rparr>
     [] [''A''] False (Some ''B'') 0.05 =
     Some (error_handling RuntimeError, Failed RuntimeError)"
proof -
  let ?env = "\<lparr>client_raises = None, device_serial = slots [''A''],
      calibration_poses = Inr [[[1, 0, 0, 0], [0, 1, 0, 1.2], [0, 0, 1, 0 :: real]]]\<rparr>"
  have enum: "get_all_device_serial (device_serial ?env) = Some [''A'']"
    by (simp add: get_all_device_serial_slots_A)
  have absent: "''B'' \<notin> set [''A'']" and nonempty: "''B'' \<noteq> ''''" by simp_all
  have start: "startup ?env [''A''] ignore = Some (Inr [0])" for ignore
    by (simp add: startup_def get_device_index_slots_A)
  from missing_reference_device_is_fatal [OF enum absent nonempty, of "0.05"]
  have "calibration ?env (Some ''B'') 0.05 = Some (Inl RuntimeError)" by blast
  with start show ?thesis by (simp add: run_tracker_server_def)
qed

text \<open>
  C9. A configured reference device that the runtime does not enumerate must make the
  startup fail, whatever the ignore flag is. For the empty serial the program does not
  do that. \<^verbatim>\<open>get_all_device_serial\<close> ends the enumeration at the empty serial and never
  lists it, but \<^verbatim>\<open>get_device_index\<close> tests equality first and returns the index of the
  empty slot. With one device \<^verbatim>\<open>A\<close> and the reference serial \<^verbatim>\<open>""\<close> the run below
  takes slot 1 as the reference, computes the offset \<open>- 0 + 0.05\<close> from the pose of
  that slot and streams, instead of ending with the error dialog.
\<close>

theorem empty_reference_serial_starts_streaming:
  "get_all_device_serial (slots [''A'']) = Some [''A''] \<and>
   '''' \<notin> set [''A''] \<and>
   run_tracker_server
     \<lparr>client_raises = None, device_serial = slots [''A''],
      calibration_poses = Inr [[[1, 0, 0, 5], [0, 1, 0, 6], [0, 0, 1, 7]],
                               [[0, 0, 0, 0], [0, 0, 0, 0], [0, 0, 0, 0]]]\<rparr>
     [\<lparr>thread_terminate = False,
       getLastPoses = Inr [[[1, 0, 0, 5], [0, 1, 0, 6], [0, 0, 1, 7]],
                           [[0, 0, 0, 0], [0, 0, 0, 0], [0, 0, 0, 0]]],
       send_raises = no_send_failure\<rparr>,
      \<lparr>thread_terminate = True,
       getLastPoses = Inr [],
       send_raises = no_send_failure\<rparr>]
     [''A''] False (Some '''') 0.05 =
   Some ([Send_message (''/tracking/trackers/1/position'', [- 5, 6.05, 7]),
          Send_message (''/tracking/trackers/1/rotation/x'', [0]),
          Send_message (''/tracking/trackers/1/rotation/y'', [0]),
          Send_message (''/tracking/trackers/1/rotation/z'', [0]),
          Logger_info, Wx_exit], Terminated)"
proof -
  have e: "get_device_index (slots [''A'']) '''' False = Some (Inr (Some 1))"
  proof -
    have "\<forall>j<1. slots [''A''] j \<noteq> '''' \<and> slots [''A''] j \<noteq> ''''"
      by (simp add: slots_def)
    moreover have "slots [''A''] 1 = ''''" by (simp add: slots_def)
    ultimately show ?thesis
      using get_device_index_first [of 1 "slots [''A'']" "''''" False] by simp
  qed
  show ?thesis
    by (simp add: get_all_device_serial_slots_A run_tracker_server_def startup_def
        get_device_index_slots_A calibration_def e getitem_def item_def bind_exn_def
        tick_def for_body_def read_pose_def get_position_def get_euler_angle_def
        asin_def truediv_def atan_def then_send_def send_message_def no_send_failure_def
        address_def str.simps digit_def)
qed

end
